theory Spec2Isabelle
  imports Complex_Main
begin

section \<open>JavaScript values used by \<open>CalendarUtils\<close>\<close>

text \<open>
  Years and all intermediate quantities of \<open>CalendarUtils\<close> are integer-valued JavaScript
  numbers; they are modelled as \<open>int\<close>, with exact arithmetic (the rounding of doubles, which
  sets in far beyond the magnitude of calendar years, is not modelled).
  A number that may be \<open>NaN\<close> is an \<open>int option\<close>, with \<open>None\<close> for \<open>NaN\<close>.
\<close>

text \<open>
  The JavaScript remainder \<open>a % b\<close> truncates: the result has the sign of the dividend.
  (A result \<open>-0\<close> behaves as \<open>0\<close> under \<open>===\<close>, \<open>includes\<close>, array indexing and
  string conversion, so it is not distinguished.)
\<close>

definition js_rem :: "int \<Rightarrow> int \<Rightarrow> int" where
  "js_rem a b = sgn a * (\<bar>a\<bar> mod \<bar>b\<bar>)"

text \<open>\<open>Math.floor(a / b)\<close> for integers \<open>a\<close> and a positive integer constant \<open>b\<close>.\<close>

definition floor_div :: "int \<Rightarrow> int \<Rightarrow> int" where
  "floor_div a b = a div b"

text \<open>Decimal rendering of an integer in a template literal.\<close>

definition digit_char :: "nat \<Rightarrow> char" where
  "digit_char n = ''0123456789'' ! n"

fun show_nat :: "nat \<Rightarrow> string" where
  "show_nat n = (if n < 10 then [digit_char n] else show_nat (n div 10) @ [digit_char (n mod 10)])"

declare show_nat.simps [simp del]

definition show_int :: "int \<Rightarrow> string" where
  "show_int i = (if i < 0 then CHR ''-'' # show_nat (nat (- i)) else show_nat (nat i))"

definition show_num :: "int option \<Rightarrow> string" where
  "show_num v = (case v of None \<Rightarrow> ''NaN'' | Some i \<Rightarrow> show_int i)"

text \<open>
  Reading \<open>xs[i]\<close>: an index outside the array (negative, too large, or \<open>NaN\<close>) yields
  \<open>undefined\<close>, here \<open>None\<close>; a template literal renders it as the text \<open>undefined\<close>.
\<close>

definition js_index :: "'a list \<Rightarrow> int option \<Rightarrow> 'a option" where
  "js_index xs v =
     (case v of
        None \<Rightarrow> None
      | Some i \<Rightarrow> if 0 \<le> i \<and> i < int (length xs) then Some (xs ! nat i) else None)"

definition show_str :: "string option \<Rightarrow> string" where
  "show_str v = (case v of None \<Rightarrow> ''undefined'' | Some s \<Rightarrow> s)"

definition monthNames :: "string list" where
  "monthNames = [''January'', ''February'', ''March'', ''April'', ''May'', ''June'',
                 ''July'', ''August'', ''September'', ''October'', ''November'', ''December'']"

section \<open>The host's \<open>Date\<close> object\<close>

text \<open>
  \<open>CalendarUtils\<close> builds dates with \<open>new Date(year, month, day)\<close>, moves them with
  \<open>setDate\<close>, reads them with \<open>getFullYear\<close>, \<open>getMonth\<close> and \<open>getDate\<close>, and subtracts
  two of them. These are services of the JavaScript host; they are modelled after the
  abstract operations of the ECMAScript language specification (section "Date Objects"),
  whose names are kept. A \<open>Date\<close> holds a time value: milliseconds since 1 January 1970 UTC,
  or \<open>NaN\<close> (an invalid date, \<open>None\<close> here). The host's local time zone adjustment \<open>tza\<close>
  (milliseconds, taken as constant: no daylight saving) is an explicit parameter.
\<close>

type_synonym js_date = "int option"

definition msPerDay :: int where
  "msPerDay = 86400000"

definition Day :: "int \<Rightarrow> int" where
  "Day t = t div msPerDay"

definition TimeWithinDay :: "int \<Rightarrow> int" where
  "TimeWithinDay t = t mod msPerDay"

definition DaysInYear :: "int \<Rightarrow> int" where
  "DaysInYear y =
     (if y mod 4 \<noteq> 0 then 365
      else if y mod 100 \<noteq> 0 then 366
      else if y mod 400 \<noteq> 0 then 365
      else 366)"

definition DayFromYear :: "int \<Rightarrow> int" where
  "DayFromYear y = 365 * (y - 1970) + (y - 1969) div 4 - (y - 1901) div 100 + (y - 1601) div 400"

definition TimeFromYear :: "int \<Rightarrow> int" where
  "TimeFromYear y = msPerDay * DayFromYear y"

text \<open>
  \<open>YearFromTime(t)\<close> is specified as the largest year \<open>y\<close> with \<open>TimeFromYear(y) \<le> t\<close>. It is
  computed from the mean year length of 146097 / 400 days, which is off by at most one year
  (lemma \<open>YearFromTime_largest\<close> below shows that this is the specified year).
\<close>

definition YearFromDay :: "int \<Rightarrow> int" where
  "YearFromDay d =
     (let y = 1970 + (400 * d) div 146097
      in if d < DayFromYear y then y - 1
         else if DayFromYear (y + 1) \<le> d then y + 1
         else y)"

definition YearFromTime :: "int \<Rightarrow> int" where
  "YearFromTime t = YearFromDay (Day t)"

definition InLeapYear :: "int \<Rightarrow> int" where
  "InLeapYear t = (if DaysInYear (YearFromTime t) = 366 then 1 else 0)"

definition DayWithinYear :: "int \<Rightarrow> int" where
  "DayWithinYear t = Day t - DayFromYear (YearFromTime t)"

text \<open>The first day (within the year) of each month, for a leap-day count \<open>l\<close> of 0 or 1.\<close>

definition MonthStart :: "int \<Rightarrow> int \<Rightarrow> int" where
  "MonthStart l m =
     (if m = 0 then 0 else if m = 1 then 31 else if m = 2 then 59 + l
      else if m = 3 then 90 + l else if m = 4 then 120 + l else if m = 5 then 151 + l
      else if m = 6 then 181 + l else if m = 7 then 212 + l else if m = 8 then 243 + l
      else if m = 9 then 273 + l else if m = 10 then 304 + l else 334 + l)"

definition MonthFromDay :: "int \<Rightarrow> int \<Rightarrow> int" where
  "MonthFromDay l d =
     (if d < 31 then 0 else if d < 59 + l then 1 else if d < 90 + l then 2
      else if d < 120 + l then 3 else if d < 151 + l then 4 else if d < 181 + l then 5
      else if d < 212 + l then 6 else if d < 243 + l then 7 else if d < 273 + l then 8
      else if d < 304 + l then 9 else if d < 334 + l then 10 else 11)"

definition MonthFromTime :: "int \<Rightarrow> int" where
  "MonthFromTime t = MonthFromDay (InLeapYear t) (DayWithinYear t)"

definition DateFromTime :: "int \<Rightarrow> int" where
  "DateFromTime t = DayWithinYear t - MonthStart (InLeapYear t) (MonthFromTime t) + 1"

text \<open>
  \<open>MakeDay(year, month, date)\<close>: the day number of the first day of the month (months beyond
  0..11 carry into the year), plus \<open>date - 1\<close>; \<open>date\<close> may be any integer.
\<close>

definition MakeDay :: "int \<Rightarrow> int \<Rightarrow> int \<Rightarrow> int" where
  "MakeDay year month date =
     (let ym = year + month div 12;
          mn = month mod 12
      in DayFromYear ym + MonthStart (if DaysInYear ym = 366 then 1 else 0) mn + date - 1)"

definition MakeDate :: "int \<Rightarrow> int \<Rightarrow> int" where
  "MakeDate day time = day * msPerDay + time"

definition TimeClip :: "int \<Rightarrow> js_date" where
  "TimeClip time = (if \<bar>time\<bar> > 8640000000000000 then None else Some time)"

definition LocalTime :: "int \<Rightarrow> int \<Rightarrow> int" where
  "LocalTime tza t = t + tza"

definition UTC :: "int \<Rightarrow> int \<Rightarrow> int" where
  "UTC tza t = t - tza"

text \<open>A year from 0 to 99 given to the constructor means a year of the twentieth century.\<close>

definition MakeFullYear :: "int \<Rightarrow> int" where
  "MakeFullYear year = (if 0 \<le> year \<and> year \<le> 99 then 1900 + year else year)"

text \<open>\<open>new Date(year, month, day)\<close>: local midnight of that day.\<close>

definition new_Date :: "int \<Rightarrow> int option \<Rightarrow> int \<Rightarrow> int \<Rightarrow> js_date" where
  "new_Date tza year month day =
     (case year of
        None \<Rightarrow> None
      | Some y \<Rightarrow> TimeClip (UTC tza (MakeDate (MakeDay (MakeFullYear y) month day) 0)))"

definition getFullYear :: "int \<Rightarrow> js_date \<Rightarrow> int option" where
  "getFullYear tza date = map_option (\<lambda>t. YearFromTime (LocalTime tza t)) date"

definition getMonth :: "int \<Rightarrow> js_date \<Rightarrow> int option" where
  "getMonth tza date = map_option (\<lambda>t. MonthFromTime (LocalTime tza t)) date"

definition getDate :: "int \<Rightarrow> js_date \<Rightarrow> int option" where
  "getDate tza date = map_option (\<lambda>t. DateFromTime (LocalTime tza t)) date"

text \<open>\<open>date.setDate(dt)\<close>, returning the updated time value of the object.\<close>

definition setDate :: "int \<Rightarrow> js_date \<Rightarrow> int option \<Rightarrow> js_date" where
  "setDate tza date dt =
     (case date of
        None \<Rightarrow> None
      | Some tv \<Rightarrow>
          (case dt of
             None \<Rightarrow> None
           | Some n \<Rightarrow>
               (let t = LocalTime tza tv;
                    newDate = MakeDate (MakeDay (YearFromTime t) (MonthFromTime t) n) (TimeWithinDay t)
                in TimeClip (UTC tza newDate))))"

text \<open>Arithmetic and comparison of numbers that may be \<open>NaN\<close>.\<close>

definition num_add :: "int option \<Rightarrow> int \<Rightarrow> int option" where
  "num_add a b = map_option (\<lambda>x. x + b) a"

definition num_sub :: "int option \<Rightarrow> int option \<Rightarrow> int option" where
  "num_sub a b = (case a of None \<Rightarrow> None | Some x \<Rightarrow> map_option (\<lambda>y. x - y) b)"

definition num_ge :: "int option \<Rightarrow> int \<Rightarrow> bool" where
  "num_ge a b = (case a of None \<Rightarrow> False | Some x \<Rightarrow> b \<le> x)"

definition num_le :: "int option \<Rightarrow> int \<Rightarrow> bool" where
  "num_le a b = (case a of None \<Rightarrow> False | Some x \<Rightarrow> x \<le> b)"

definition num_rem :: "int option \<Rightarrow> int \<Rightarrow> int option" where
  "num_rem a b = map_option (\<lambda>x. js_rem x b) a"

text \<open>The template \<open>${months[date.getMonth()]} ${date.getDate()}, ${year}\<close>.\<close>

definition month_day_year_text :: "int \<Rightarrow> js_date \<Rightarrow> int \<Rightarrow> string" where
  "month_day_year_text tza date year =
     show_str (js_index monthNames (getMonth tza date)) @ '' '' @ show_num (getDate tza date) @
     '', '' @ show_int year"

section \<open>Gregorian utilities\<close>

definition isGregorianLeapYear :: "int \<Rightarrow> bool" where
  "isGregorianLeapYear year \<longleftrightarrow>
     js_rem year 400 = 0 \<or> (js_rem year 4 = 0 \<and> js_rem year 100 \<noteq> 0)"

text \<open>The Meeus/Jones/Butcher sequence of \<open>calculateEasterDate\<close>, up to month and day.\<close>

definition easter_month_day :: "int \<Rightarrow> int \<times> int" where
  "easter_month_day year =
     (let a = js_rem year 19;
          b = floor_div year 100;
          c = js_rem year 100;
          d = floor_div b 4;
          e = js_rem b 4;
          f = floor_div (b + 8) 25;
          g = floor_div (b - f + 1) 3;
          h = js_rem (19 * a + b - d - g + 15) 30;
          i = floor_div c 4;
          k = js_rem c 4;
          l = js_rem (32 + 2 * e + 2 * i - h - k) 7;
          m = floor_div (a + 11 * h + 22 * l) 451;
          month = floor_div (h + l - 7 * m + 114) 31;
          day = js_rem (h + l - 7 * m + 114) 31 + 1
      in (month, day))"

definition calculateEasterDate :: "int \<Rightarrow> string" where
  "calculateEasterDate year =
     (case easter_month_day year of
        (month, day) \<Rightarrow>
          show_str (js_index monthNames (Some (month - 1))) @ '' '' @ show_int day @ '', '' @
          show_int year)"

section \<open>Hebrew calendar\<close>

definition isHebrewLeapYear :: "int \<Rightarrow> bool" where
  "isHebrewLeapYear year = (let cycleYear = js_rem year 19 in cycleYear \<in> set [3, 6, 8, 11, 14, 17, 0])"

definition hebrewMonths :: "string list" where
  "hebrewMonths = [''Nisan'', ''Iyar'', ''Sivan'', ''Tammuz'', ''Av'', ''Elul'',
                   ''Tishrei'', ''Heshvan'', ''Kislev'', ''Tevet'', ''Shevat'', ''Adar'']"

definition gregorianToHebrew_monthIndex :: "int \<Rightarrow> js_date \<Rightarrow> int option" where
  "gregorianToHebrew_monthIndex tza date = num_rem (num_add (getMonth tza date) 6) 12"

definition gregorianToHebrew :: "int \<Rightarrow> js_date \<Rightarrow> string" where
  "gregorianToHebrew tza date =
     (let year = getFullYear tza date;
          hebrewYear = num_add (num_add year 3760) (if num_ge (getMonth tza date) 9 then 1 else 0);
          monthIndex = gregorianToHebrew_monthIndex tza date;
          month = js_index hebrewMonths monthIndex;
          day = getDate tza date
      in show_num day @ '' '' @ show_str month @ '' '' @ show_num hebrewYear)"

section \<open>Islamic calendar\<close>

definition islamicMonths :: "string list" where
  "islamicMonths = [''Muharram'', ''Safar'', ''Rabi' al-Awwal'', ''Rabi' al-Thani'',
                    ''Jumada al-Awwal'', ''Jumada al-Thani'', ''Rajab'', ''Sha'ban'',
                    ''Ramadan'', ''Shawwal'', ''Dhu al-Qi'dah'', ''Dhu al-Hijjah'']"

text \<open>
  The month index of \<open>gregorianToIslamic\<close>: the day of the year is the whole number of days
  between the date and \<open>new Date(year, 0, 0)\<close>; its remainder by 354 is divided by 29.5
  (a quotient of numbers below 354 in magnitude, whose floor the double division gives exactly).
\<close>

definition gregorianToIslamic_dayOfYear :: "int \<Rightarrow> js_date \<Rightarrow> int option" where
  "gregorianToIslamic_dayOfYear tza date =
     (let year = getFullYear tza date
      in map_option (\<lambda>ms. floor_div ms (1000 * 60 * 60 * 24))
           (num_sub date (new_Date tza year 0 0)))"

definition gregorianToIslamic_monthIndex :: "int \<Rightarrow> js_date \<Rightarrow> int option" where
  "gregorianToIslamic_monthIndex tza date =
     (let dayOfYear = gregorianToIslamic_dayOfYear tza date
      in num_rem (map_option (\<lambda>r. \<lfloor>real_of_int r / 29.5\<rfloor>) (num_rem dayOfYear 354)) 12)"

definition calculateRamadanStart :: "int \<Rightarrow> int \<Rightarrow> string" where
  "calculateRamadanStart tza gregorianYear =
     (let baseYear = 2024;
          baseDate = new_Date tza (Some 2024) 2 10;
          yearsDiff = gregorianYear - baseYear;
          daysBack = yearsDiff * 11;
          ramadanStart = baseDate;
          ramadanStart = setDate tza ramadanStart (num_add (getDate tza ramadanStart) (- daysBack))
      in month_day_year_text tza ramadanStart gregorianYear)"

section \<open>Seasons\<close>

text \<open>
  \<open>getSeason\<close> first turns its argument into a \<open>Date\<close> with \<open>new Date(dateString)\<close>; the
  function below takes that \<open>Date\<close>. A comparison with \<open>NaN\<close> is false.
\<close>

definition getSeason :: "int \<Rightarrow> js_date \<Rightarrow> string" where
  "getSeason tza date =
     (let month = getMonth tza date
      in if num_ge month 2 \<and> num_le month 4 then ''Spring''
         else if num_ge month 5 \<and> num_le month 7 then ''Summer''
         else if num_ge month 8 \<and> num_le month 10 then ''Fall''
         else ''Winter'')"

section \<open>Hindu calendar and festivals\<close>

definition hinduMonths :: "string list" where
  "hinduMonths = [''Chaitra'', ''Vaishakha'', ''Jyeshtha'', ''Ashadha'',
                  ''Shravana'', ''Bhadrapada'', ''Ashwin'', ''Kartik'',
                  ''Margashirsha'', ''Pausha'', ''Magha'', ''Phalguna'']"

definition gregorianToHindu_monthIndex :: "int \<Rightarrow> js_date \<Rightarrow> int option" where
  "gregorianToHindu_monthIndex tza date = num_rem (num_add (getMonth tza date) 10) 12"

definition gregorianToHindu :: "int \<Rightarrow> js_date \<Rightarrow> string" where
  "gregorianToHindu tza date =
     (let year = getFullYear tza date;
          vikramYear = num_add year 57;
          monthIndex = gregorianToHindu_monthIndex tza date;
          month = js_index hinduMonths monthIndex;
          day = getDate tza date
      in show_num day @ '' '' @ show_str month @ '' '' @ show_num vikramYear @
         '' (Vikram Samvat)'')"

text \<open>
  The festival estimators. \<open>Math.sin\<close>, \<open>Math.cos\<close> and the product with the constant are
  taken as the real functions they approximate.
\<close>

definition calculateDiwali_offset :: "int \<Rightarrow> int" where
  "calculateDiwali_offset year = \<lfloor>sin (real_of_int year) * 15\<rfloor>"

definition calculateDiwali :: "int \<Rightarrow> int \<Rightarrow> string" where
  "calculateDiwali tza year =
     (let base = new_Date tza (Some year) 9 15;
          offset = calculateDiwali_offset year;
          base = setDate tza base (num_add (getDate tza base) offset)
      in month_day_year_text tza base year)"

definition calculateHoli_offset :: "int \<Rightarrow> int" where
  "calculateHoli_offset year = \<lfloor>cos (real_of_int year) * 12\<rfloor>"

definition calculateHoli :: "int \<Rightarrow> int \<Rightarrow> string" where
  "calculateHoli tza year =
     (let base = new_Date tza (Some year) 2 8;
          offset = calculateHoli_offset year;
          base = setDate tza base (num_add (getDate tza base) offset)
      in month_day_year_text tza base year)"

definition calculateNavratri_offset :: "int \<Rightarrow> int" where
  "calculateNavratri_offset year = \<lfloor>sin (real_of_int (year + 1)) * 10\<rfloor>"

definition calculateNavratri :: "int \<Rightarrow> int \<Rightarrow> string" where
  "calculateNavratri tza year =
     (let base = new_Date tza (Some year) 8 20;
          offset = calculateNavratri_offset year;
          base = setDate tza base (num_add (getDate tza base) offset)
      in month_day_year_text tza base year)"

text \<open>
  The pattern shared by \<open>calculateRamadanStart\<close> and the festival estimators: build a date,
  move it with \<open>setDate(getDate() + off)\<close>, print month and day.
\<close>

definition shifted_text :: "int \<Rightarrow> int \<Rightarrow> int \<Rightarrow> int \<Rightarrow> int \<Rightarrow> int \<Rightarrow> string" where
  "shifted_text tza y m d off year =
     (let base = new_Date tza (Some y) m d;
          base = setDate tza base (num_add (getDate tza base) off)
      in month_day_year_text tza base year)"

section \<open>Calendar dates, day by day\<close>

text \<open>
  The claims speak of the calendar date obtained by shifting a date by a number of days.
  This is stated on civil dates (year, 0-indexed month, day of month), independently of
  the \<open>Date\<close> arithmetic: a shift by \<open>n\<close> days steps to the next (or previous) day \<open>n\<close> times.
\<close>

type_synonym civil = "int \<times> int \<times> int"

definition days_in_month :: "int \<Rightarrow> int \<Rightarrow> int" where
  "days_in_month y m =
     (if m = 1 then (if isGregorianLeapYear y then 29 else 28)
      else if m = 3 \<or> m = 5 \<or> m = 8 \<or> m = 10 then 30
      else 31)"

definition valid_civil :: "civil \<Rightarrow> bool" where
  "valid_civil c = (case c of (y, m, d) \<Rightarrow> 0 \<le> m \<and> m \<le> 11 \<and> 1 \<le> d \<and> d \<le> days_in_month y m)"

definition next_day :: "civil \<Rightarrow> civil" where
  "next_day c =
     (case c of (y, m, d) \<Rightarrow>
        if d < days_in_month y m then (y, m, d + 1)
        else if m < 11 then (y, m + 1, 1)
        else (y + 1, 0, 1))"

definition prev_day :: "civil \<Rightarrow> civil" where
  "prev_day c =
     (case c of (y, m, d) \<Rightarrow>
        if 1 < d then (y, m, d - 1)
        else if 0 < m then (y, m - 1, days_in_month y (m - 1))
        else (y - 1, 11, 31))"

definition shift_days :: "civil \<Rightarrow> int \<Rightarrow> civil" where
  "shift_days c n = (if 0 \<le> n then (next_day ^^ nat n) c else (prev_day ^^ nat (- n)) c)"

text \<open>The text \<open><MonthName> <Day>, <Year>\<close> for the month and day of a civil date.\<close>

definition civil_text :: "civil \<Rightarrow> int \<Rightarrow> string" where
  "civil_text c year =
     (case c of (y, m, d) \<Rightarrow> monthNames ! nat m @ '' '' @ show_int d @ '', '' @ show_int year)"

text \<open>The day number that \<open>MakeDay\<close> gives a civil date.\<close>

definition day_of_civil :: "civil \<Rightarrow> int" where
  "day_of_civil c = (case c of (y, m, d) \<Rightarrow> MakeDay y m d)"

text \<open>The civil date of a day number, as the \<open>Date\<close> getters read it.\<close>

definition civil_of_day :: "int \<Rightarrow> civil" where
  "civil_of_day D =
     (let t = MakeDate D 0 in (YearFromTime t, MonthFromTime t, DateFromTime t))"

section \<open>Facts about remainders and the Easter sequence\<close>

lemma js_rem_nonneg: "0 \<le> a \<Longrightarrow> js_rem a b = a mod \<bar>b\<bar>"
  by (cases "a = 0") (simp_all add: js_rem_def)

lemma js_rem_neg: "a < 0 \<Longrightarrow> js_rem a b = - ((- a) mod \<bar>b\<bar>)"
  by (simp add: js_rem_def)

lemma js_rem_eq_0_iff: "js_rem a b = 0 \<longleftrightarrow> b dvd a"
proof (cases "0 \<le> a")
  case True
  then have "js_rem a b = 0 \<longleftrightarrow> \<bar>b\<bar> dvd a"
    by (simp add: js_rem_nonneg mod_eq_0_iff_dvd)
  then show ?thesis by simp
next
  case False
  then have "js_rem a b = 0 \<longleftrightarrow> \<bar>b\<bar> dvd - a"
    by (simp add: js_rem_neg mod_eq_0_iff_dvd)
  then show ?thesis by simp
qed

lemma easter_h_arg:
  fixes b :: int
  assumes "0 \<le> a" "0 \<le> b"
  shows "0 \<le> 19 * a + b - b div 4 - (b - (b + 8) div 25 + 1) div 3 + 15"
proof -
  have "4 * (b div 4) \<le> b" by simp
  moreover have "0 \<le> (b + 8) div 25" using assms by simp
  moreover have "3 * ((b - (b + 8) div 25 + 1) div 3) \<le> b - (b + 8) div 25 + 1" by simp
  ultimately show ?thesis using assms by linarith
qed

text \<open>
  For a non-negative year every remainder of the sequence is taken of a non-negative
  number, and the sum \<open>h + l - 7 * m + 114\<close> lies between 93 and 154.
\<close>

lemma easter_month_day_sum:
  assumes y: "0 \<le> year"
  shows "\<exists>s. 93 \<le> s \<and> s < 155 \<and> easter_month_day year = (s div 31, s mod 31 + 1)"
proof -
  define a where "a = year mod 19"
  define b where "b = year div 100"
  define c where "c = year mod 100"
  define d where "d = b div 4"
  define e where "e = b mod 4"
  define f where "f = (b + 8) div 25"
  define g where "g = (b - f + 1) div 3"
  define h where "h = (19 * a + b - d - g + 15) mod 30"
  define i where "i = c div 4"
  define k where "k = c mod 4"
  define l where "l = (32 + 2 * e + 2 * i - h - k) mod 7"
  define m where "m = (a + 11 * h + 22 * l) div 451"
  define s where "s = h + l - 7 * m + 114"
  have a_rng: "0 \<le> a" "a < 19" by (simp_all add: a_def)
  have b0: "0 \<le> b" using y by (simp add: b_def pos_imp_zdiv_nonneg_iff)
  have c0: "0 \<le> c" by (simp add: c_def)
  have h_arg: "0 \<le> 19 * a + b - d - g + 15"
    using easter_h_arg [OF a_rng(1) b0] by (simp add: d_def f_def g_def)
  have h_rng: "0 \<le> h" "h < 30" by (simp_all add: h_def)
  have e0: "0 \<le> e" by (simp add: e_def)
  have i0: "0 \<le> i" using c0 by (simp add: i_def pos_imp_zdiv_nonneg_iff)
  have k3: "k < 4" by (simp add: k_def)
  have l_arg: "0 \<le> 32 + 2 * e + 2 * i - h - k" using h_rng e0 i0 k3 by linarith
  have l_rng: "0 \<le> l" "l < 7" by (simp_all add: l_def)
  have m1: "451 * m \<le> a + 11 * h + 22 * l" by (simp add: m_def)
  have m2: "a + 11 * h + 22 * l < 451 * m + 451"
    using pos_mod_bound [of 451 "a + 11 * h + 22 * l"]
      div_mult_mod_eq [of "a + 11 * h + 22 * l" 451]
    by (simp add: m_def)
  have m_rng: "0 \<le> m" "m \<le> 1" using m1 m2 a_rng h_rng l_rng by linarith+
  have s_rng: "93 \<le> s" "s < 155"
    using m1 m2 m_rng a_rng h_rng l_rng unfolding s_def by linarith+
  have s0: "0 \<le> s" using s_rng by simp
  have ra: "js_rem year 19 = a" using y by (simp add: js_rem_nonneg a_def)
  have rb: "floor_div year 100 = b" by (simp add: floor_div_def b_def)
  have rc: "js_rem year 100 = c" using y by (simp add: js_rem_nonneg c_def)
  have rd: "floor_div b 4 = d" by (simp add: floor_div_def d_def)
  have re: "js_rem b 4 = e" using b0 by (simp add: js_rem_nonneg e_def)
  have rf: "floor_div (b + 8) 25 = f" by (simp add: floor_div_def f_def)
  have rg: "floor_div (b - f + 1) 3 = g" by (simp add: floor_div_def g_def)
  have rh: "js_rem (19 * a + b - d - g + 15) 30 = h"
    using h_arg by (simp add: js_rem_nonneg h_def)
  have ri: "floor_div c 4 = i" by (simp add: floor_div_def i_def)
  have rk: "js_rem c 4 = k" using c0 by (simp add: js_rem_nonneg k_def)
  have rl: "js_rem (32 + 2 * e + 2 * i - h - k) 7 = l"
    using l_arg by (simp add: js_rem_nonneg l_def)
  have rm: "floor_div (a + 11 * h + 22 * l) 451 = m" by (simp add: floor_div_def m_def)
  have rs: "h + l - 7 * m + 114 = s" by (simp add: s_def)
  have rmonth: "floor_div s 31 = s div 31" by (simp add: floor_div_def)
  have rday: "js_rem s 31 = s mod 31" using s0 by (simp add: js_rem_nonneg)
  have "easter_month_day year = (s div 31, s mod 31 + 1)"
    unfolding easter_month_day_def Let_def
    by (simp only: ra rb rc rd re rf rg rh ri rk rl rm rs rmonth rday)
  with s_rng show ?thesis by blast
qed

lemma easter_range:
  assumes y: "0 \<le> year"
  shows "(fst (easter_month_day year) = 3 \<or> fst (easter_month_day year) = 4) \<and>
         1 \<le> snd (easter_month_day year) \<and> snd (easter_month_day year) \<le> 31"
proof -
  obtain s where s_rng: "93 \<le> s" "s < 155"
    and emd: "easter_month_day year = (s div 31, s mod 31 + 1)"
    using easter_month_day_sum [OF y] by blast
  have "s div 31 = 3 \<or> s div 31 = 4"
  proof -
    have "31 * (s div 31) \<le> s" by simp
    moreover have "s < 31 * (s div 31) + 31"
      using pos_mod_bound [of 31 s] div_mult_mod_eq [of s 31] by simp
    ultimately show ?thesis using s_rng by linarith
  qed
  moreover have "0 \<le> s mod 31" "s mod 31 < 31" by simp_all
  ultimately show ?thesis unfolding emd by auto
qed

section \<open>Facts about the \<open>Date\<close> model\<close>

lemma div_succ_step:
  fixes a n :: int
  assumes "0 < n"
  shows "(a + 1) div n = a div n + (if (a + 1) mod n = 0 then 1 else 0)"
proof -
  define q where "q = a div n"
  define r where "r = a mod n"
  have a: "a = n * q + r" by (simp add: q_def r_def)
  have r: "0 \<le> r" "r < n" using assms by (simp_all add: r_def)
  show ?thesis
  proof (cases "r + 1 = n")
    case True
    then have eq: "a + 1 = n * (q + 1) + 0" using a by (simp add: algebra_simps)
    have z: "(0::int) \<le> 0" "0 < n" using assms by simp_all
    have "(a + 1) div n = q + 1" using int_div_pos_eq [OF eq z] .
    moreover have "(a + 1) mod n = 0" using int_mod_pos_eq [OF eq z] .
    ultimately show ?thesis by (simp add: q_def)
  next
    case False
    then have r1: "0 \<le> r + 1" "r + 1 < n" using r by simp_all
    have eq: "a + 1 = n * q + (r + 1)" using a by simp
    have "(a + 1) div n = q" using int_div_pos_eq [OF eq r1] .
    moreover have "(a + 1) mod n = r + 1" using int_mod_pos_eq [OF eq r1] .
    ultimately show ?thesis using r by (simp add: q_def)
  qed
qed

lemma mod_shift_eq_0:
  fixes y n c :: int
  assumes "n dvd c"
  shows "(y - c) mod n = 0 \<longleftrightarrow> y mod n = 0"
  using assms by (simp add: mod_eq_0_iff_dvd dvd_diff_left_iff)

lemma mod_400_100: "(y::int) mod 400 = 0 \<Longrightarrow> y mod 100 = 0"
  by (simp add: mod_eq_0_iff_dvd) (rule dvd_trans [of 100 400 y]; simp)

lemma mod_100_4: "(y::int) mod 100 = 0 \<Longrightarrow> y mod 4 = 0"
  by (simp add: mod_eq_0_iff_dvd) (rule dvd_trans [of 4 100 y]; simp)

text \<open>A year has as many days as \<open>DaysInYear\<close> says.\<close>

lemma DayFromYear_Suc: "DayFromYear (y + 1) = DayFromYear y + DaysInYear y"
proof -
  have s4: "(y + 1 - 1969) div 4 = (y - 1969) div 4 + (if y mod 4 = 0 then 1 else 0)"
    using div_succ_step [of 4 "y - 1969"] mod_shift_eq_0 [of 4 1968 y]
    by (simp add: algebra_simps)
  have s100: "(y + 1 - 1901) div 100 = (y - 1901) div 100 + (if y mod 100 = 0 then 1 else 0)"
    using div_succ_step [of 100 "y - 1901"] mod_shift_eq_0 [of 100 1900 y]
    by (simp add: algebra_simps)
  have s400: "(y + 1 - 1601) div 400 = (y - 1601) div 400 + (if y mod 400 = 0 then 1 else 0)"
    using div_succ_step [of 400 "y - 1601"] mod_shift_eq_0 [of 400 1600 y]
    by (simp add: algebra_simps)
  show ?thesis
    unfolding DayFromYear_def DaysInYear_def s4 s100 s400
    using mod_400_100 [of y] mod_100_4 [of y] by auto
qed

lemma DaysInYear_cases: "DaysInYear y = 365 \<or> DaysInYear y = 366"
  by (simp add: DaysInYear_def)

lemma DayFromYear_mono_aux: "y \<le> y' \<Longrightarrow> DayFromYear y + 365 * (y' - y) \<le> DayFromYear y'"
proof (induction y' rule: int_ge_induct)
  case base
  then show ?case by simp
next
  case (step i)
  have "DayFromYear (i + 1) = DayFromYear i + DaysInYear i" by (rule DayFromYear_Suc)
  moreover have "365 \<le> DaysInYear i" using DaysInYear_cases [of i] by auto
  ultimately show ?case using step.IH by (simp add: algebra_simps)
qed

lemma DayFromYear_mono: "y \<le> y' \<Longrightarrow> DayFromYear y \<le> DayFromYear y'"
  using DayFromYear_mono_aux [of y y'] by (simp add: add_increasing2)

text \<open>The day number of 1 January stays within two days of the mean-year estimate.\<close>

lemma DayFromYear_bounds:
  "146097 * (y - 1970) - 506 \<le> 400 * DayFromYear y"
  "400 * DayFromYear y \<le> 146097 * (y - 1970) + 589"
proof -
  define q1 where "q1 = (y - 1969) div 4"
  define q2 where "q2 = (y - 1901) div 100"
  define q3 where "q3 = (y - 1601) div 400"
  have b1: "4 * q1 \<le> y - 1969" "y - 1969 \<le> 4 * q1 + 3"
    using pos_mod_bound [of 4 "y - 1969"] div_mult_mod_eq [of "y - 1969" 4]
    by (simp_all add: q1_def)
  have b2: "100 * q2 \<le> y - 1901" "y - 1901 \<le> 100 * q2 + 99"
    using pos_mod_bound [of 100 "y - 1901"] div_mult_mod_eq [of "y - 1901" 100]
    by (simp_all add: q2_def)
  have b3: "400 * q3 \<le> y - 1601" "y - 1601 \<le> 400 * q3 + 399"
    using pos_mod_bound [of 400 "y - 1601"] div_mult_mod_eq [of "y - 1601" 400]
    by (simp_all add: q3_def)
  have d: "DayFromYear y = 365 * (y - 1970) + q1 - q2 + q3"
    by (simp add: DayFromYear_def q1_def q2_def q3_def)
  have l1: "100 * (y - 1972) \<le> 400 * q1" using b1(2) by simp
  have l2: "400 * q2 \<le> 4 * (y - 1901)" using b2(1) by simp
  have l3: "y - 2000 \<le> 400 * q3" using b3(2) by simp
  have u1: "400 * q1 \<le> 100 * (y - 1969)" using b1(1) by simp
  have u2: "4 * (y - 2000) \<le> 400 * q2" using b2(2) by simp
  have u3: "400 * q3 \<le> y - 1601" using b3(1) by simp
  have d400: "400 * DayFromYear y = 146000 * (y - 1970) + 400 * q1 - 400 * q2 + 400 * q3"
    unfolding d by (simp add: algebra_simps)
  show "146097 * (y - 1970) - 506 \<le> 400 * DayFromYear y"
    unfolding d400 using l1 l2 l3 by (simp add: algebra_simps)
  show "400 * DayFromYear y \<le> 146097 * (y - 1970) + 589"
    unfolding d400 using u1 u2 u3 by (simp add: algebra_simps)
qed

lemma YearFromDay_correct:
  "DayFromYear (YearFromDay d) \<le> d \<and> d < DayFromYear (YearFromDay d + 1)"
proof -
  define y where "y = 1970 + (400 * d) div 146097"
  have e: "146097 * (y - 1970) \<le> 400 * d" "400 * d < 146097 * (y - 1970) + 146097"
    using pos_mod_bound [of 146097 "400 * d"] div_mult_mod_eq [of "400 * d" 146097]
    by (simp_all add: y_def)
  have lo: "DayFromYear (y - 1) \<le> d"
  proof -
    have "400 * DayFromYear (y - 1) \<le> 400 * d"
      using DayFromYear_bounds(2) [of "y - 1"] e by (simp add: algebra_simps)
    then show ?thesis by simp
  qed
  have hi: "d < DayFromYear (y + 2)"
  proof -
    have "400 * d < 400 * DayFromYear (y + 2)"
      using DayFromYear_bounds(1) [of "y + 2"] e by (simp add: algebra_simps)
    then show ?thesis by simp
  qed
  have yfd: "YearFromDay d =
      (if d < DayFromYear y then y - 1 else if DayFromYear (y + 1) \<le> d then y + 1 else y)"
    by (simp add: YearFromDay_def y_def Let_def)
  show ?thesis
  proof (cases "d < DayFromYear y")
    case True
    then show ?thesis using lo by (simp add: yfd)
  next
    case False
    show ?thesis
    proof (cases "DayFromYear (y + 1) \<le> d")
      case True
      then show ?thesis using False hi by (simp add: yfd add.assoc)
    next
      case n: False
      then show ?thesis using False by (simp add: yfd)
    qed
  qed
qed

lemma YearFromDay_unique:
  assumes "DayFromYear y \<le> d" "d < DayFromYear (y + 1)"
  shows "YearFromDay d = y"
proof -
  let ?Y = "YearFromDay d"
  have c: "DayFromYear ?Y \<le> d" "d < DayFromYear (?Y + 1)"
    using YearFromDay_correct [of d] by simp_all
  have "\<not> ?Y < y"
  proof
    assume "?Y < y"
    then have "DayFromYear (?Y + 1) \<le> DayFromYear y" by (simp add: DayFromYear_mono)
    with c assms show False by simp
  qed
  moreover have "\<not> y < ?Y"
  proof
    assume "y < ?Y"
    then have "DayFromYear (y + 1) \<le> DayFromYear ?Y" by (simp add: DayFromYear_mono)
    with c assms show False by simp
  qed
  ultimately show ?thesis by simp
qed

lemma msPerDay_pos: "0 < msPerDay"
  by (simp add: msPerDay_def)

lemma Day_MakeDate: "0 \<le> r \<Longrightarrow> r < msPerDay \<Longrightarrow> Day (MakeDate D r) = D"
proof -
  assume r: "0 \<le> r" "r < msPerDay"
  have eq: "MakeDate D r = msPerDay * D + r" by (simp add: MakeDate_def)
  show ?thesis unfolding Day_def using int_div_pos_eq [OF eq r] .
qed

lemma TimeWithinDay_MakeDate:
  "0 \<le> r \<Longrightarrow> r < msPerDay \<Longrightarrow> TimeWithinDay (MakeDate D r) = r"
proof -
  assume r: "0 \<le> r" "r < msPerDay"
  have eq: "MakeDate D r = msPerDay * D + r" by (simp add: MakeDate_def)
  show ?thesis unfolding TimeWithinDay_def using int_mod_pos_eq [OF eq r] .
qed

text \<open>The computed year is the one the language specification asks for.\<close>

lemma YearFromTime_largest:
  "TimeFromYear (YearFromTime t) \<le> t \<and> (\<forall>y. TimeFromYear y \<le> t \<longrightarrow> y \<le> YearFromTime t)"
proof -
  let ?Y = "YearFromTime t"
  have c: "DayFromYear ?Y \<le> Day t" "Day t < DayFromYear (?Y + 1)"
    using YearFromDay_correct [of "Day t"] by (simp_all add: YearFromTime_def)
  have dt: "msPerDay * Day t \<le> t" by (simp add: Day_def msPerDay_def)
  have "msPerDay * DayFromYear ?Y \<le> msPerDay * Day t"
    using c(1) msPerDay_pos by simp
  then have 1: "TimeFromYear ?Y \<le> t" using dt by (simp add: TimeFromYear_def)
  have 2: "y \<le> ?Y" if le: "TimeFromYear y \<le> t" for y
  proof (rule ccontr)
    assume "\<not> y \<le> ?Y"
    then have "DayFromYear (?Y + 1) \<le> DayFromYear y" by (simp add: DayFromYear_mono)
    then have "Day t < DayFromYear y" using c(2) by simp
    then have "Day t + 1 \<le> DayFromYear y" by simp
    then have "msPerDay * (Day t + 1) \<le> msPerDay * DayFromYear y"
      using msPerDay_pos by simp
    moreover have "t < msPerDay * (Day t + 1)"
    proof -
      have "t mod msPerDay < msPerDay" using msPerDay_pos by simp
      moreover have "t = msPerDay * (t div msPerDay) + t mod msPerDay" by simp
      ultimately have "t < msPerDay * (t div msPerDay) + msPerDay" by linarith
      then show ?thesis by (simp add: Day_def algebra_simps)
    qed
    ultimately show False using le by (simp add: TimeFromYear_def)
  qed
  from 1 2 show ?thesis by blast
qed

subsection \<open>Civil dates and day numbers\<close>

lemma DaysInYear_leap: "DaysInYear y = 366 \<longleftrightarrow> isGregorianLeapYear y"
  using mod_400_100 [of y] mod_100_4 [of y]
  by (auto simp add: DaysInYear_def isGregorianLeapYear_def js_rem_eq_0_iff mod_eq_0_iff_dvd)

lemma YearFromDay_in_year:
  assumes "0 \<le> k" "k < DaysInYear y"
  shows "YearFromDay (DayFromYear y + k) = y"
  using assms by (intro YearFromDay_unique) (simp_all add: DayFromYear_Suc)

lemma civil_of_day_in_year:
  assumes k: "0 \<le> k" "k < DaysInYear y"
  defines "l \<equiv> (if DaysInYear y = 366 then 1 else 0)"
  shows "civil_of_day (DayFromYear y + k) =
           (y, MonthFromDay l k, k - MonthStart l (MonthFromDay l k) + 1)"
proof -
  let ?t = "MakeDate (DayFromYear y + k) 0"
  have d: "Day ?t = DayFromYear y + k" by (simp add: Day_MakeDate msPerDay_pos)
  have yr: "YearFromTime ?t = y" by (simp add: YearFromTime_def d YearFromDay_in_year [OF k])
  have lp: "InLeapYear ?t = l" by (simp add: InLeapYear_def yr l_def)
  have dw: "DayWithinYear ?t = k" by (simp add: DayWithinYear_def yr d)
  show ?thesis
    by (simp add: civil_of_day_def Let_def yr MonthFromTime_def DateFromTime_def lp dw)
qed

lemma month_cases:
  fixes m :: int
  assumes "0 \<le> m" "m \<le> 11"
  shows "m = 0 \<or> m = 1 \<or> m = 2 \<or> m = 3 \<or> m = 4 \<or> m = 5 \<or> m = 6 \<or> m = 7 \<or> m = 8 \<or>
         m = 9 \<or> m = 10 \<or> m = 11"
  using assms by presburger

lemma days_in_month_leap:
  "days_in_month y m =
     (if m = 1 then 28 + (if DaysInYear y = 366 then 1 else 0)
      else if m = 3 \<or> m = 5 \<or> m = 8 \<or> m = 10 then 30 else 31)"
  by (simp add: days_in_month_def DaysInYear_leap)

lemma MonthStart_next:
  assumes "0 \<le> m" "m < 11"
  shows "MonthStart (if DaysInYear y = 366 then 1 else 0) (m + 1) =
         MonthStart (if DaysInYear y = 366 then 1 else 0) m + days_in_month y m"
proof -
  have "m = 0 \<or> m = 1 \<or> m = 2 \<or> m = 3 \<or> m = 4 \<or> m = 5 \<or> m = 6 \<or> m = 7 \<or> m = 8 \<or>
        m = 9 \<or> m = 10 \<or> m = 11"
    using assms by (intro month_cases) simp_all
  then show ?thesis
    using assms by (elim disjE) (simp_all add: MonthStart_def days_in_month_leap)
qed

lemma MonthStart_last:
  "MonthStart (if DaysInYear y = 366 then 1 else 0) 11 + days_in_month y 11 = DaysInYear y"
  using DaysInYear_cases [of y] by (auto simp add: MonthStart_def days_in_month_leap)

lemma MonthFromDay_MonthStart:
  assumes "0 \<le> m" "m \<le> 11" "1 \<le> d" "d \<le> days_in_month y m"
  defines "l \<equiv> (if DaysInYear y = 366 then 1 else 0)"
  shows "MonthFromDay l (MonthStart l m + d - 1) = m"
  using month_cases [OF assms(1,2)] assms(3,4) unfolding l_def
  by (elim disjE) (simp_all add: MonthStart_def MonthFromDay_def days_in_month_leap)

lemma in_year_of_valid:
  assumes "0 \<le> m" "m \<le> 11" "1 \<le> d" "d \<le> days_in_month y m"
  defines "l \<equiv> (if DaysInYear y = 366 then 1 else 0)"
  shows "0 \<le> MonthStart l m + d - 1 \<and> MonthStart l m + d - 1 < DaysInYear y"
  using month_cases [OF assms(1,2)] assms(3,4) DaysInYear_cases [of y] unfolding l_def
  by (elim disjE) (simp_all add: MonthStart_def days_in_month_leap)

lemma MakeDay_month: "0 \<le> m \<Longrightarrow> m \<le> 11 \<Longrightarrow>
  MakeDay y m d = DayFromYear y + MonthStart (if DaysInYear y = 366 then 1 else 0) m + d - 1"
  by (simp add: MakeDay_def Let_def)

lemma civil_of_day_of_civil:
  assumes "valid_civil c"
  shows "civil_of_day (day_of_civil c) = c"
proof -
  obtain y m d where c: "c = (y, m, d)" by (cases c)
  define l :: int where "l = (if DaysInYear y = 366 then 1 else 0)"
  have v: "0 \<le> m" "m \<le> 11" "1 \<le> d" "d \<le> days_in_month y m"
    using assms by (simp_all add: valid_civil_def c)
  define k where "k = MonthStart l m + d - 1"
  have k: "0 \<le> k" "k < DaysInYear y"
    using in_year_of_valid [OF v] by (simp_all add: k_def l_def)
  have md: "day_of_civil c = DayFromYear y + k"
    by (simp add: day_of_civil_def c MakeDay_month v k_def l_def)
  have mk: "MonthFromDay l k = m"
    using MonthFromDay_MonthStart [OF v] by (simp add: k_def l_def)
  show ?thesis
    unfolding md using civil_of_day_in_year [OF k]
    by (simp add: l_def [symmetric] mk c) (simp add: k_def)
qed

lemma day_of_civil_valid:
  assumes "valid_civil (y, m, d)"
  shows "day_of_civil (y, m, d) =
           DayFromYear y + MonthStart (if DaysInYear y = 366 then 1 else 0) m + d - 1"
  using assms by (simp add: day_of_civil_def valid_civil_def MakeDay_month)

lemma days_in_month_pos: "1 \<le> days_in_month y m"
  by (simp add: days_in_month_def)

lemma next_day_valid:
  assumes "valid_civil c"
  shows "valid_civil (next_day c) \<and> day_of_civil (next_day c) = day_of_civil c + 1"
proof -
  obtain y m d where c: "c = (y, m, d)" by (cases c)
  define l :: int where "l = (if DaysInYear y = 366 then 1 else 0)"
  have v: "0 \<le> m" "m \<le> 11" "1 \<le> d" "d \<le> days_in_month y m"
    using assms by (simp_all add: valid_civil_def c)
  have dc: "day_of_civil c = DayFromYear y + MonthStart l m + d - 1"
    using assms unfolding c l_def by (rule day_of_civil_valid)
  show ?thesis
  proof (cases "d < days_in_month y m")
    case True
    then have n: "next_day c = (y, m, d + 1)" by (simp add: next_day_def c)
    have vn: "valid_civil (y, m, d + 1)" using v True by (simp add: valid_civil_def)
    show ?thesis
      unfolding n using vn dc by (simp add: day_of_civil_valid [OF vn] l_def)
  next
    case False
    then have d: "d = days_in_month y m" using v by simp
    show ?thesis
    proof (cases "m < 11")
      case True
      then have n: "next_day c = (y, m + 1, 1)" using False by (simp add: next_day_def c)
      have vn: "valid_civil (y, m + 1, 1)"
        using v True days_in_month_pos [of y "m + 1"] by (simp add: valid_civil_def)
      have "MonthStart l (m + 1) = MonthStart l m + days_in_month y m"
        unfolding l_def using v(1) True by (rule MonthStart_next)
      then show ?thesis
        unfolding n using vn dc d by (simp add: day_of_civil_valid [OF vn] l_def)
    next
      case m: False
      then have m11: "m = 11" using v by simp
      have n: "next_day c = (y + 1, 0, 1)" using False m by (simp add: next_day_def c)
      have vn: "valid_civil (y + 1, 0, 1)" by (simp add: valid_civil_def days_in_month_def)
      have "MonthStart l 11 + days_in_month y 11 = DaysInYear y"
        unfolding l_def by (rule MonthStart_last)
      then show ?thesis
        unfolding n using vn dc d m11
        by (simp add: day_of_civil_valid [OF vn] DayFromYear_Suc MonthStart_def)
    qed
  qed
qed

lemma prev_day_valid:
  assumes "valid_civil c"
  shows "valid_civil (prev_day c) \<and> next_day (prev_day c) = c"
proof -
  obtain y m d where c: "c = (y, m, d)" by (cases c)
  have v: "0 \<le> m" "m \<le> 11" "1 \<le> d" "d \<le> days_in_month y m"
    using assms by (simp_all add: valid_civil_def c)
  show ?thesis
  proof (cases "1 < d")
    case True
    then show ?thesis using v by (simp add: prev_day_def next_day_def c valid_civil_def)
  next
    case False
    then have d1: "d = 1" using v by simp
    show ?thesis
    proof (cases "0 < m")
      case True
      then show ?thesis
        using v d1 days_in_month_pos [of y "m - 1"]
        by (simp add: prev_day_def next_day_def c valid_civil_def)
    next
      case m: False
      then have "m = 0" using v by simp
      then show ?thesis
        using d1 by (simp add: prev_day_def next_day_def c valid_civil_def days_in_month_def)
    qed
  qed
qed

lemma prev_day_day:
  assumes "valid_civil c"
  shows "day_of_civil (prev_day c) = day_of_civil c - 1"
  using next_day_valid [of "prev_day c"] prev_day_valid [OF assms] by simp

lemma funpow_next_day:
  assumes "valid_civil c"
  shows "valid_civil ((next_day ^^ k) c) \<and> day_of_civil ((next_day ^^ k) c) = day_of_civil c + int k"
proof (induction k)
  case 0
  then show ?case using assms by simp
next
  case (Suc k)
  then show ?case using next_day_valid [of "(next_day ^^ k) c"] by simp
qed

lemma funpow_prev_day:
  assumes "valid_civil c"
  shows "valid_civil ((prev_day ^^ k) c) \<and> day_of_civil ((prev_day ^^ k) c) = day_of_civil c - int k"
proof (induction k)
  case 0
  then show ?case using assms by simp
next
  case (Suc k)
  then show ?case
    using prev_day_valid [of "(prev_day ^^ k) c"] prev_day_day [of "(prev_day ^^ k) c"] by simp
qed

lemma shift_days_valid:
  assumes "valid_civil c"
  shows "valid_civil (shift_days c n) \<and> day_of_civil (shift_days c n) = day_of_civil c + n"
proof (cases "0 \<le> n")
  case True
  then show ?thesis
    using funpow_next_day [OF assms, of "nat n"] by (simp add: shift_days_def)
next
  case False
  then show ?thesis
    using funpow_prev_day [OF assms, of "nat (- n)"] by (simp add: shift_days_def)
qed

text \<open>
  The \<open>Date\<close> arithmetic agrees with stepping through the calendar: the civil date of the
  day number \<open>n\<close> days after a valid date is that date shifted by \<open>n\<close> days.
\<close>

lemma civil_of_day_shift:
  assumes "valid_civil c"
  shows "civil_of_day (day_of_civil c + n) = shift_days c n"
  using shift_days_valid [OF assms, of n] civil_of_day_of_civil [of "shift_days c n"] by simp

subsection \<open>Dates at local midnight\<close>

lemma TimeClip_in_range:
  assumes "\<bar>tza\<bar> < msPerDay" "\<bar>D\<bar> < 100000000"
  shows "TimeClip (UTC tza (MakeDate D 0)) = Some (MakeDate D 0 - tza)"
proof -
  have "\<bar>D\<bar> \<le> 99999999" using assms(2) by simp
  then have "\<bar>D\<bar> * 86400000 \<le> 99999999 * 86400000" by simp
  then have "\<bar>D * 86400000\<bar> \<le> 8639999913600000" by (simp add: abs_mult)
  moreover have "\<bar>tza\<bar> < 86400000" using assms(1) by (simp add: msPerDay_def)
  ultimately have "\<bar>D * 86400000 - tza\<bar> \<le> 8640000000000000" by linarith
  then show ?thesis by (simp add: TimeClip_def UTC_def MakeDate_def msPerDay_def)
qed

lemma TimeClip_out_of_range:
  assumes "\<bar>tza\<bar> < msPerDay" "100000000 < \<bar>D\<bar>"
  shows "TimeClip (UTC tza (MakeDate D 0)) = None"
proof -
  have "100000001 \<le> \<bar>D\<bar>" using assms(2) by simp
  then have "100000001 * 86400000 \<le> \<bar>D\<bar> * 86400000" by simp
  then have "8640000086400000 \<le> \<bar>D * 86400000\<bar>" by (simp add: abs_mult)
  moreover have "\<bar>tza\<bar> < 86400000" using assms(1) by (simp add: msPerDay_def)
  ultimately have "8640000000000000 < \<bar>D * 86400000 - tza\<bar>" by linarith
  then show ?thesis by (simp add: TimeClip_def UTC_def MakeDate_def msPerDay_def)
qed

lemma LocalTime_local: "LocalTime tza (MakeDate D r - tza) = MakeDate D r"
  by (simp add: LocalTime_def)

lemma getters_local:
  "getFullYear tza (Some (MakeDate D 0 - tza)) = Some (fst (civil_of_day D))"
  "getMonth tza (Some (MakeDate D 0 - tza)) = Some (fst (snd (civil_of_day D)))"
  "getDate tza (Some (MakeDate D 0 - tza)) = Some (snd (snd (civil_of_day D)))"
  by (simp_all add: getFullYear_def getMonth_def getDate_def LocalTime_local civil_of_day_def Let_def)

lemma setDate_local:
  assumes "civil_of_day D = (y, m, d)"
  shows "setDate tza (Some (MakeDate D 0 - tza)) (Some n) =
           TimeClip (UTC tza (MakeDate (MakeDay y m n) 0))"
  using assms
  by (simp add: setDate_def LocalTime_local Let_def civil_of_day_def
      TimeWithinDay_MakeDate msPerDay_pos)

lemma MakeDay_date: "MakeDay y m (d + k) = MakeDay y m d + k"
  by (simp add: MakeDay_def Let_def)

lemma length_monthNames: "length monthNames = 12"
  by (simp add: monthNames_def)

lemma month_text_valid:
  assumes "valid_civil c"
  shows "month_day_year_text tza (Some (MakeDate (day_of_civil c) 0 - tza)) year = civil_text c year"
proof -
  obtain y m d where c: "c = (y, m, d)" by (cases c)
  have v: "0 \<le> m" "m \<le> 11" using assms by (simp_all add: valid_civil_def c)
  have cd: "civil_of_day (day_of_civil (y, m, d)) = (y, m, d)"
    using civil_of_day_of_civil [OF assms] by (simp add: c)
  show ?thesis
    unfolding c using v
    by (simp add: month_day_year_text_def getters_local cd civil_text_def
        js_index_def length_monthNames show_str_def show_num_def)
qed

lemma month_text_invalid:
  "month_day_year_text tza None year = ''undefined NaN, '' @ show_int year"
  by (simp add: month_day_year_text_def getMonth_def getDate_def js_index_def show_str_def
      show_num_def)

lemma shifted_text_valid:
  assumes tza: "\<bar>tza\<bar> < msPerDay"
    and v: "valid_civil (MakeFullYear y, m, d)"
    and r0: "\<bar>day_of_civil (MakeFullYear y, m, d)\<bar> < 100000000"
    and r1: "\<bar>day_of_civil (MakeFullYear y, m, d) + off\<bar> < 100000000"
  shows "shifted_text tza y m d off year = civil_text (shift_days (MakeFullYear y, m, d) off) year"
proof -
  let ?c = "(MakeFullYear y, m, d)"
  let ?D = "day_of_civil ?c"
  have D: "?D = MakeDay (MakeFullYear y) m d" by (simp add: day_of_civil_def)
  have base: "new_Date tza (Some y) m d = Some (MakeDate ?D 0 - tza)"
    using TimeClip_in_range [OF tza r0] by (simp add: new_Date_def D)
  have cd: "civil_of_day ?D = ?c" using civil_of_day_of_civil [OF v] .
  have gd: "getDate tza (Some (MakeDate ?D 0 - tza)) = Some d"
    by (simp add: getters_local cd)
  have sd: "setDate tza (Some (MakeDate ?D 0 - tza)) (Some (d + off)) =
              Some (MakeDate (?D + off) 0 - tza)"
    using setDate_local [OF cd, of tza "d + off"] TimeClip_in_range [OF tza r1]
    by (simp add: MakeDay_date D)
  have vs: "valid_civil (shift_days ?c off)" "day_of_civil (shift_days ?c off) = ?D + off"
    using shift_days_valid [OF v, of off] by simp_all
  have "shifted_text tza y m d off year =
          month_day_year_text tza (Some (MakeDate (?D + off) 0 - tza)) year"
    by (simp add: shifted_text_def base gd num_add_def sd Let_def)
  also have "\<dots> = civil_text (shift_days ?c off) year"
    using month_text_valid [OF vs(1), of tza year] by (simp add: vs(2))
  finally show ?thesis .
qed

lemma shifted_text_invalid_base:
  assumes tza: "\<bar>tza\<bar> < msPerDay"
    and r0: "100000000 < \<bar>MakeDay (MakeFullYear y) m d\<bar>"
  shows "shifted_text tza y m d off year = ''undefined NaN, '' @ show_int year"
proof -
  have base: "new_Date tza (Some y) m d = None"
    using TimeClip_out_of_range [OF tza r0] by (simp add: new_Date_def)
  show ?thesis
    by (simp add: shifted_text_def base Let_def setDate_def month_text_invalid)
qed

lemma shifted_text_invalid_shift:
  assumes tza: "\<bar>tza\<bar> < msPerDay"
    and v: "valid_civil (MakeFullYear y, m, d)"
    and r0: "\<bar>day_of_civil (MakeFullYear y, m, d)\<bar> < 100000000"
    and r1: "100000000 < \<bar>day_of_civil (MakeFullYear y, m, d) + off\<bar>"
  shows "shifted_text tza y m d off year = ''undefined NaN, '' @ show_int year"
proof -
  let ?c = "(MakeFullYear y, m, d)"
  let ?D = "day_of_civil ?c"
  have D: "?D = MakeDay (MakeFullYear y) m d" by (simp add: day_of_civil_def)
  have base: "new_Date tza (Some y) m d = Some (MakeDate ?D 0 - tza)"
    using TimeClip_in_range [OF tza r0] by (simp add: new_Date_def D)
  have cd: "civil_of_day ?D = ?c" using civil_of_day_of_civil [OF v] .
  have gd: "getDate tza (Some (MakeDate ?D 0 - tza)) = Some d"
    by (simp add: getters_local cd)
  have sd: "setDate tza (Some (MakeDate ?D 0 - tza)) (Some (d + off)) = None"
    using setDate_local [OF cd, of tza "d + off"] TimeClip_out_of_range [OF tza r1]
    by (simp add: MakeDay_date D)
  show ?thesis
    by (simp add: shifted_text_def base gd num_add_def sd Let_def month_text_invalid)
qed

lemma calculateDiwali_shifted:
  "calculateDiwali tza year = shifted_text tza year 9 15 (calculateDiwali_offset year) year"
  by (simp add: calculateDiwali_def shifted_text_def)

lemma calculateRamadanStart_shifted:
  "calculateRamadanStart tza year = shifted_text tza 2024 2 10 (- ((year - 2024) * 11)) year"
  by (simp add: calculateRamadanStart_def shifted_text_def Let_def)

lemma civil_text_not_undefined:
  assumes "valid_civil c"
  shows "civil_text c year \<noteq> ''undefined NaN, '' @ show_int year"
proof -
  obtain y m d where c: "c = (y, m, d)" by (cases c)
  have "m = 0 \<or> m = 1 \<or> m = 2 \<or> m = 3 \<or> m = 4 \<or> m = 5 \<or> m = 6 \<or> m = 7 \<or> m = 8 \<or>
        m = 9 \<or> m = 10 \<or> m = 11"
    using assms by (intro month_cases) (simp_all add: valid_civil_def c)
  then show ?thesis
    unfolding c by (elim disjE) (simp_all add: civil_text_def monthNames_def)
qed

lemma ramadan_anchor:
  "MakeFullYear 2024 = 2024" "valid_civil (2024, 2, 10)" "day_of_civil (2024, 2, 10) = 19792"
  by (simp_all add: MakeFullYear_def valid_civil_def days_in_month_def day_of_civil_def
      MakeDay_def DayFromYear_def DaysInYear_def MonthStart_def)

lemma calculateRamadanStart_shifted':
  "calculateRamadanStart tza year = shifted_text tza 2024 2 10 (- (11 * (year - 2024))) year"
proof -
  have "- ((year - 2024) * 11) = - (11 * (year - 2024))" by simp
  then show ?thesis by (simp only: calculateRamadanStart_shifted)
qed

text \<open>Beyond the years whose shifted date a \<open>Date\<close> can hold, the result is no date.\<close>

lemma calculateRamadanStart_out_of_range:
  assumes "\<bar>tza\<bar> < msPerDay" "year < - 9087085 \<or> 9094732 < year"
  shows "calculateRamadanStart tza year = ''undefined NaN, '' @ show_int year"
proof -
  have v: "valid_civil (MakeFullYear 2024, 2, 10)" by (simp add: ramadan_anchor)
  have r0: "\<bar>day_of_civil (MakeFullYear 2024, 2, 10)\<bar> < 100000000" by (simp add: ramadan_anchor)
  have r1: "100000000 < \<bar>day_of_civil (MakeFullYear 2024, 2, 10) + - (11 * (year - 2024))\<bar>"
    using assms(2) unfolding ramadan_anchor by arith
  show ?thesis
    unfolding calculateRamadanStart_shifted'
    using assms(1) v r0 r1 by (rule shifted_text_invalid_shift)
qed

text \<open>The model on well-known values: the epoch, the anchor of \<open>calculateRamadanStart\<close>, and
  the last day a \<open>Date\<close> can hold (13 September 275760).\<close>

lemma new_Date_known_values:
  "new_Date 0 (Some 1970) 0 1 = Some 0"
  "new_Date 0 (Some 2024) 2 10 = Some 1710028800000"
  "new_Date 0 (Some 275760) 8 13 = Some 8640000000000000"
  "new_Date 0 (Some 275760) 8 14 = None"
  "new_Date 0 (Some 99) 11 31 = Some 946598400000"
  by (simp_all add: new_Date_def MakeFullYear_def MakeDay_def DayFromYear_def DaysInYear_def
      MonthStart_def MakeDate_def UTC_def TimeClip_def msPerDay_def)

subsection \<open>Reading a date\<close>

lemma civil_of_day_Day:
  "(YearFromTime t, MonthFromTime t, DateFromTime t) = civil_of_day (Day t)"
proof -
  have d: "Day (MakeDate (Day t) 0) = Day t" by (simp add: Day_MakeDate msPerDay_pos)
  show ?thesis
    by (simp add: civil_of_day_def Let_def YearFromTime_def MonthFromTime_def DateFromTime_def
        InLeapYear_def DayWithinYear_def d)
qed

lemma getters_Some:
  assumes "civil_of_day (Day (tv + tza)) = (y, m, d)"
  shows "getFullYear tza (Some tv) = Some y" "getMonth tza (Some tv) = Some m"
    "getDate tza (Some tv) = Some d"
  using civil_of_day_Day [of "tv + tza"] assms
  by (simp_all add: getFullYear_def getMonth_def getDate_def LocalTime_def)

lemma civil_of_day_eval:
  assumes "valid_civil c" "day_of_civil c = D"
  shows "civil_of_day D = c"
  using civil_of_day_of_civil [OF assms(1)] assms(2) by simp

lemmas civil_eval = valid_civil_def days_in_month_def isGregorianLeapYear_def js_rem_def
  day_of_civil_def MakeDay_def DayFromYear_def DaysInYear_def MonthStart_def

lemmas text_eval = show_num_def show_str_def show_int_def show_nat.simps digit_char_def

lemma civil_of_day_19999: "civil_of_day 19999 = (2024, 9, 3)"
  by (rule civil_of_day_eval) (simp_all add: civil_eval)

lemma hebrew_index:
  assumes "0 \<le> m" "m \<le> 11"
  shows "js_index hebrewMonths (Some (js_rem (m + 6) 12)) = Some (hebrewMonths ! nat ((m + 6) mod 12))"
proof -
  have "js_rem (m + 6) 12 = (m + 6) mod 12" using assms by (simp add: js_rem_nonneg)
  moreover have "0 \<le> (m + 6) mod 12" "(m + 6) mod 12 < 12" by simp_all
  ultimately show ?thesis by (simp add: js_index_def hebrewMonths_def)
qed

text \<open>
  The month indices of \<open>gregorianToHebrew\<close> and \<open>gregorianToHindu\<close> stay within the twelve
  names for every month 0..11.
\<close>

lemma hebrew_hindu_monthIndex_in_range:
  assumes "getMonth tza date = Some m" "0 \<le> m" "m \<le> 11"
  shows "\<exists>i j. gregorianToHebrew_monthIndex tza date = Some i \<and> 0 \<le> i \<and> i \<le> 11 \<and>
           gregorianToHindu_monthIndex tza date = Some j \<and> 0 \<le> j \<and> j \<le> 11"
proof -
  have "js_rem (m + 6) 12 = (m + 6) mod 12" "js_rem (m + 10) 12 = (m + 10) mod 12"
    using assms by (simp_all add: js_rem_nonneg)
  moreover have "(m + 6) mod 12 \<le> 11" "(m + 10) mod 12 \<le> 11"
    using pos_mod_bound [of 12 "m + 6"] pos_mod_bound [of 12 "m + 10"] by linarith+
  ultimately show ?thesis
    using assms(1)
    by (simp add: gregorianToHebrew_monthIndex_def gregorianToHindu_monthIndex_def num_rem_def
        num_add_def)
qed

lemma civil_of_day_year_50: "civil_of_day (- 701100) = (50, 5, 15)"
  by (rule civil_of_day_eval) (simp_all add: civil_eval)

subsection \<open>The festival offsets\<close>

lemma sin_one_bounds: "0.8 \<le> sin (1::real)" "sin (1::real) < 0.9"
proof -
  have b0: "\<bar>sin (1::real) - (\<Sum>m<7. sin_coeff m * 1 ^ m)\<bar> \<le> inverse (fact 7) * \<bar>1\<bar> ^ 7"
    by (rule Maclaurin_sin_bound)
  have S: "(\<Sum>m<7. sin_coeff m * (1::real) ^ m) = 101 / 120"
    by (simp add: eval_nat_numeral lessThan_Suc sin_coeff_Suc cos_coeff_Suc)
  have E: "inverse (fact 7) * \<bar>1::real\<bar> ^ 7 = 1 / 5040"
    by (simp add: eval_nat_numeral)
  have b: "\<bar>sin (1::real) - 101 / 120\<bar> \<le> 1 / 5040"
    using b0 unfolding S E .
  from b have "101 / 120 - 1 / 5040 \<le> sin (1::real)" "sin (1::real) \<le> 101 / 120 + 1 / 5040"
    by linarith+
  then show "0.8 \<le> sin (1::real)" "sin (1::real) < 0.9" by linarith+
qed

lemma floor_sin_one: "\<lfloor>sin (1::real) * 10\<rfloor> = 8"
proof (rule floor_unique)
  show "of_int 8 \<le> sin (1::real) * 10" using sin_one_bounds(1) by simp
  show "sin (1::real) * 10 < of_int 8 + 1" using sin_one_bounds(2) by simp
qed

lemma offsets_at_0:
  "calculateDiwali_offset 0 = 0" "calculateHoli_offset 0 = 12" "calculateNavratri_offset 0 = 8"
  by (simp_all add: calculateDiwali_offset_def calculateHoli_offset_def
      calculateNavratri_offset_def floor_sin_one)

lemma floor_scaled_bounds:
  fixes x :: real
  assumes "- 1 \<le> x" "x \<le> 1" "0 \<le> k"
  shows "- k \<le> \<lfloor>x * of_int k\<rfloor>" "\<lfloor>x * of_int k\<rfloor> \<le> k"
proof -
  have k: "(0::real) \<le> of_int k" using assms(3) by simp
  have "- 1 * of_int k \<le> x * of_int k" using assms(1) k by (rule mult_right_mono)
  then have "of_int (- k) \<le> x * of_int k" by simp
  then show "- k \<le> \<lfloor>x * of_int k\<rfloor>" by (simp only: le_floor_iff)
  have "x * of_int k \<le> 1 * of_int k" using assms(2) k by (rule mult_right_mono)
  then have "x * of_int k \<le> of_int k" by simp
  then have "\<lfloor>x * of_int k\<rfloor> \<le> \<lfloor>(of_int k :: real)\<rfloor>" by (rule floor_mono)
  then show "\<lfloor>x * of_int k\<rfloor> \<le> k" by simp
qed

lemma offset_bounds:
  "- 15 \<le> calculateDiwali_offset year" "calculateDiwali_offset year \<le> 15"
  "- 12 \<le> calculateHoli_offset year" "calculateHoli_offset year \<le> 12"
  "- 10 \<le> calculateNavratri_offset year" "calculateNavratri_offset year \<le> 10"
  using floor_scaled_bounds [of "sin (real_of_int year)" 15]
    floor_scaled_bounds [of "cos (real_of_int year)" 12]
    floor_scaled_bounds [of "sin (real_of_int (year + 1))" 10]
  by (simp_all add: calculateDiwali_offset_def calculateHoli_offset_def
      calculateNavratri_offset_def)

text \<open>
  Bounds of the sine from its Taylor polynomial of degree 11, whose error at \<open>x\<close> is at most
  \<open>|x| ^ 13 / 13!\<close>.
\<close>

lemma sin_taylor_13:
  fixes x :: real
  defines "p \<equiv> x - x ^ 3 / 6 + x ^ 5 / 120 - x ^ 7 / 5040 + x ^ 9 / 362880 - x ^ 11 / 39916800"
  shows "p - \<bar>x\<bar> ^ 13 / 6227020800 \<le> sin x" "sin x \<le> p + \<bar>x\<bar> ^ 13 / 6227020800"
proof -
  have b0: "\<bar>sin x - (\<Sum>m<13. sin_coeff m * x ^ m)\<bar> \<le> inverse (fact 13) * \<bar>x\<bar> ^ 13"
    by (rule Maclaurin_sin_bound)
  have S: "(\<Sum>m<13. sin_coeff m * x ^ m) = p"
    by (simp add: eval_nat_numeral lessThan_Suc sin_coeff_Suc cos_coeff_Suc p_def)
  have E: "inverse (fact 13) * \<bar>x\<bar> ^ 13 = \<bar>x\<bar> ^ 13 / 6227020800"
    by (simp add: eval_nat_numeral)
  have b: "\<bar>sin x - p\<bar> \<le> \<bar>x\<bar> ^ 13 / 6227020800"
    using b0 unfolding S E .
  from b show "p - \<bar>x\<bar> ^ 13 / 6227020800 \<le> sin x" "sin x \<le> p + \<bar>x\<bar> ^ 13 / 6227020800"
    by linarith+
qed

lemma sin_gt:
  fixes x c :: real
  assumes "c < x - x ^ 3 / 6 + x ^ 5 / 120 - x ^ 7 / 5040 + x ^ 9 / 362880 - x ^ 11 / 39916800 -
             \<bar>x\<bar> ^ 13 / 6227020800"
  shows "c < sin x"
  using assms sin_taylor_13(1) [of x] by linarith

lemma sin_lt:
  fixes x c :: real
  assumes "x - x ^ 3 / 6 + x ^ 5 / 120 - x ^ 7 / 5040 + x ^ 9 / 362880 - x ^ 11 / 39916800 +
             \<bar>x\<bar> ^ 13 / 6227020800 < c"
  shows "sin x < c"
  using assms sin_taylor_13(2) [of x] by linarith

lemma sin_values:
  "1 / 2 < sin (0.5236 :: real)" "sin (0.523598 :: real) < 1 / 2"
  "0.72 < sin (0.8096 :: real)" "sin (0.8174 :: real) < 0.73"
  "0.9 < sin (1.3242 :: real)" "sin (1.332 :: real) < 1"
  by (rule sin_gt sin_lt, simp add: power_divide)+

lemma pi_bounds: "3.141588 < pi" "pi < 3.1416"
proof -
  have half: "1 \<le> pi / 2" using pi_ge_two by simp
  show "pi < 3.1416"
  proof (rule ccontr)
    assume "\<not> pi < 3.1416"
    then have "0.5236 \<le> pi / 6" by simp
    moreover have "pi / 6 \<le> pi / 2" by simp
    ultimately have "sin (0.5236 :: real) \<le> sin (pi / 6)"
      using half by (intro sin_monotone_2pi_le) simp_all
    then show False using sin_values(1) by (simp add: sin_30)
  qed
  show "3.141588 < pi"
  proof (rule ccontr)
    assume "\<not> 3.141588 < pi"
    then have "pi / 6 \<le> 0.523598" by simp
    then have "sin (pi / 6) \<le> sin (0.523598 :: real)"
      using half by (intro sin_monotone_2pi_le) simp_all
    then show False using sin_values(2) by (simp add: sin_30)
  qed
qed

text \<open>
  The arguments 2024 and 2025 reduced by multiples of \<open>pi\<close>: \<open>2024 - 644 * pi\<close> lies between
  0.8096 and 0.8174, and \<open>645 * pi - 2025\<close> between 1.3242 and 1.332.
\<close>

lemma sin_cos_2024:
  "0.72 < sin (2024 :: real)" "sin (2024 :: real) < 0.73"
  "0.68 < cos (2024 :: real)" "cos (2024 :: real) < 0.694"
proof -
  define r :: real where "r = 2024 - 644 * pi"
  have r: "0.8096 < r" "r < 0.8174" using pi_bounds by (simp_all add: r_def)
  have half: "0.8174 < pi / 2" using pi_bounds(1) by simp
  have e: "r + 644 * pi = 2024" by (simp add: r_def)
  have "sin (r + 644 * pi) = sin r" "cos (r + 644 * pi) = cos r"
    by (simp_all add: sin_add cos_add)
  then have s: "sin (2024 :: real) = sin r" and c: "cos (2024 :: real) = cos r"
    unfolding e by simp_all
  have "sin (0.8096 :: real) \<le> sin r"
    using r half by (intro sin_monotone_2pi_le) simp_all
  then have lo: "0.72 < sin r" using sin_values(3) by simp
  have "sin r \<le> sin (0.8174 :: real)"
    using r half by (intro sin_monotone_2pi_le) simp_all
  then have hi: "sin r < 0.73" using sin_values(4) by simp
  show "0.72 < sin (2024 :: real)" "sin (2024 :: real) < 0.73" using lo hi by (simp_all add: s)
  have c0: "0 < cos r" using r half by (intro cos_gt_zero) simp_all
  have sq: "(cos r)\<^sup>2 = 1 - (sin r)\<^sup>2" by (rule cos_squared_eq)
  have n: "(0.73 :: real)\<^sup>2 = 0.5329" "(0.72 :: real)\<^sup>2 = 0.5184"
    "(0.68 :: real)\<^sup>2 = 0.4624" "(0.694 :: real)\<^sup>2 = 0.481636"
    by (simp_all add: power2_eq_square)
  have "(sin r)\<^sup>2 < 0.73\<^sup>2" using lo hi by (intro power_strict_mono) simp_all
  then have "0.68\<^sup>2 < (cos r)\<^sup>2" unfolding sq n by simp
  moreover have c0': "0 \<le> cos r" using c0 by simp
  ultimately have clo: "0.68 < cos r" by (rule power2_less_imp_less)
  have "0.72\<^sup>2 < (sin r)\<^sup>2" using lo by (intro power_strict_mono) simp_all
  then have "(cos r)\<^sup>2 < 0.694\<^sup>2" unfolding sq n by simp
  moreover have "(0 :: real) \<le> 0.694" by simp
  ultimately have chi: "cos r < 0.694" by (rule power2_less_imp_less)
  show "0.68 < cos (2024 :: real)" "cos (2024 :: real) < 0.694" using clo chi by (simp_all add: c)
qed

lemma sin_2025: "0.9 < sin (2025 :: real)" "sin (2025 :: real) < 1"
proof -
  define u :: real where "u = 645 * pi - 2025"
  have u: "1.3242 < u" "u < 1.332" using pi_bounds by (simp_all add: u_def)
  have half: "1.332 < pi / 2" using pi_bounds(1) by simp
  have e: "645 * pi - u = 2025" by (simp add: u_def)
  have "sin (645 * pi - u) = sin u" by (simp add: sin_diff)
  then have s: "sin (2025 :: real) = sin u" unfolding e .
  have "sin (1.3242 :: real) \<le> sin u"
    using u half by (intro sin_monotone_2pi_le) simp_all
  then have lo: "0.9 < sin u" using sin_values(5) by simp
  have "sin u \<le> sin (1.332 :: real)"
    using u half by (intro sin_monotone_2pi_le) simp_all
  then have hi: "sin u < 1" using sin_values(6) by simp
  show "0.9 < sin (2025 :: real)" "sin (2025 :: real) < 1" using lo hi by (simp_all add: s)
qed

lemma offsets_at_2024:
  "calculateDiwali_offset 2024 = 10" "calculateHoli_offset 2024 = 8"
  "calculateNavratri_offset 2024 = 9" "\<lfloor>sin (real_of_int 2024) * 10\<rfloor> = 7"
proof -
  show "calculateDiwali_offset 2024 = 10"
    unfolding calculateDiwali_offset_def using sin_cos_2024(1,2)
    by (intro floor_unique) simp_all
  show "calculateHoli_offset 2024 = 8"
    unfolding calculateHoli_offset_def using sin_cos_2024(3,4)
    by (intro floor_unique) simp_all
  show "calculateNavratri_offset 2024 = 9"
    unfolding calculateNavratri_offset_def using sin_2025
    by (intro floor_unique) simp_all
  show "\<lfloor>sin (real_of_int 2024) * 10\<rfloor> = 7"
    using sin_cos_2024(1,2) by (intro floor_unique) simp_all
qed

subsection \<open>Shifts within a year\<close>

lemma MonthStart_leap: "2 \<le> m \<Longrightarrow> MonthStart l m = MonthStart 0 m + l"
  by (simp add: MonthStart_def)

lemma MonthFromDay_leap:
  assumes "0 \<le> l" "59 \<le> j"
  shows "MonthFromDay l (j + l) = MonthFromDay 0 j" "2 \<le> MonthFromDay 0 j"
  using assms by (simp_all add: MonthFromDay_def)

lemma civil_text_shift_in_year:
  assumes v: "valid_civil (y, m, d)"
    and l: "l = (if DaysInYear y = 366 then 1 else 0)"
    and k: "k = MonthStart l m + d - 1 + off" "0 \<le> k" "k < DaysInYear y"
  shows "civil_text (shift_days (y, m, d) off) yr =
           monthNames ! nat (MonthFromDay l k) @ '' '' @
           show_int (k - MonthStart l (MonthFromDay l k) + 1) @ '', '' @ show_int yr"
proof -
  have "day_of_civil (y, m, d) + off = DayFromYear y + k"
    using day_of_civil_valid [OF v] by (simp add: l k(1))
  then have "shift_days (y, m, d) off = civil_of_day (DayFromYear y + k)"
    using civil_of_day_shift [OF v, of off] by simp
  also have "\<dots> = (y, MonthFromDay l k, k - MonthStart l (MonthFromDay l k) + 1)"
    using civil_of_day_in_year [OF k(2,3)] by (simp add: l)
  finally show ?thesis by (simp add: civil_text_def)
qed

text \<open>
  From March on, the month and day reached by a shift within the year do not depend on
  whether the year is a leap year.
\<close>

lemma civil_text_shift_after_feb:
  assumes v: "valid_civil (y, m, d)" and m: "2 \<le> m"
    and j: "j = MonthStart 0 m + d - 1 + off" "59 \<le> j" "j < 365"
  shows "civil_text (shift_days (y, m, d) off) yr =
           monthNames ! nat (MonthFromDay 0 j) @ '' '' @
           show_int (j - MonthStart 0 (MonthFromDay 0 j) + 1) @ '', '' @ show_int yr"
proof -
  define l :: int where "l = (if DaysInYear y = 366 then 1 else 0)"
  have l0: "0 \<le> l" by (simp add: l_def)
  have k: "j + l = MonthStart l m + d - 1 + off"
    using MonthStart_leap [OF m, of l] by (simp add: j(1))
  have k0: "0 \<le> j + l" using j(2) l0 by simp
  have k1: "j + l < DaysInYear y" using j(3) DaysInYear_cases [of y] by (auto simp add: l_def)
  have mf: "MonthFromDay l (j + l) = MonthFromDay 0 j" "2 \<le> MonthFromDay 0 j"
    using MonthFromDay_leap [OF l0 j(2)] by simp_all
  have ms: "MonthStart l (MonthFromDay 0 j) = MonthStart 0 (MonthFromDay 0 j) + l"
    using mf(2) by (rule MonthStart_leap)
  show ?thesis
    using civil_text_shift_in_year [OF v l_def k k0 k1, of yr] by (simp add: mf(1) ms)
qed

lemma civil_text_shift_same_leap:
  assumes v: "valid_civil (y, m, d)" and same: "DaysInYear y' = DaysInYear y"
    and l: "l = (if DaysInYear y = 366 then 1 else 0)"
    and k: "k = MonthStart l m + d - 1 + off" "0 \<le> k" "k < DaysInYear y"
  shows "civil_text (shift_days (y', m, d) off) yr = civil_text (shift_days (y, m, d) off) yr"
proof -
  have "days_in_month y' m = days_in_month y m" by (simp add: days_in_month_leap same)
  then have v': "valid_civil (y', m, d)"
    using v by (simp add: valid_civil_def)
  have l': "l = (if DaysInYear y' = 366 then 1 else 0)" by (simp add: l same)
  have k': "k < DaysInYear y'" using k(3) same by simp
  show ?thesis
    using civil_text_shift_in_year [OF v l k(1,2,3), of yr]
      civil_text_shift_in_year [OF v' l' k(1,2) k', of yr]
    by simp
qed

lemma civil_text_shift_after_feb_any_year:
  assumes "valid_civil (y, m, d)" "valid_civil (y', m, d)" "2 \<le> m"
    and "59 \<le> MonthStart 0 m + d - 1 + off" "MonthStart 0 m + d - 1 + off < 365"
  shows "civil_text (shift_days (y', m, d) off) yr = civil_text (shift_days (y, m, d) off) yr"
  using civil_text_shift_after_feb [OF assms(1,3) refl assms(4,5), of yr]
    civil_text_shift_after_feb [OF assms(2,3) refl assms(4,5), of yr]
  by simp

lemma DaysInYear_two_digit:
  assumes "1 \<le> y" "y \<le> 99"
  shows "DaysInYear (1900 + y) = DaysInYear y"
proof -
  have 4: "(1900 + y) mod 4 = y mod 4"
    using mod_add_self1 [of "4 * 475" y] by (simp add: mod_add_left_eq [symmetric])
  have a: "y mod 100 = y" using assms by simp
  have "(1900 + y) mod 100 = y mod 100"
    by (simp add: mod_add_left_eq [symmetric])
  then have 100: "(1900 + y) mod 100 = y" using a by simp
  show ?thesis using assms by (simp add: DaysInYear_def 4 100 a)
qed

lemma MakeFullYear_cases:
  "MakeFullYear year = year \<or> (0 \<le> year \<and> year \<le> 99 \<and> MakeFullYear year = 1900 + year)"
  by (simp add: MakeFullYear_def)

subsection \<open>The festival estimators\<close>

lemma calculateHoli_shifted:
  "calculateHoli tza year = shifted_text tza year 2 8 (calculateHoli_offset year) year"
  by (simp add: calculateHoli_def shifted_text_def)

lemma calculateNavratri_shifted:
  "calculateNavratri tza year = shifted_text tza year 8 20 (calculateNavratri_offset year) year"
  by (simp add: calculateNavratri_def shifted_text_def)

lemma festival_base:
  assumes "2 \<le> m" "m \<le> 11" "1 \<le> d" "d \<le> 28"
  shows "valid_civil (Y, m, d)"
    and "day_of_civil (Y, m, d) =
           DayFromYear Y + MonthStart 0 m + (if DaysInYear Y = 366 then 1 else 0) + d - 1"
proof -
  show v: "valid_civil (Y, m, d)"
    using assms by (simp add: valid_civil_def days_in_month_def)
  show "day_of_civil (Y, m, d) =
           DayFromYear Y + MonthStart 0 m + (if DaysInYear Y = 366 then 1 else 0) + d - 1"
    using day_of_civil_valid [OF v] MonthStart_leap [OF assms(1), of "if DaysInYear Y = 366 then 1 else 0"]
    by simp
qed

lemma MonthStart_0_bounds: "2 \<le> m \<Longrightarrow> 59 \<le> MonthStart 0 m \<and> MonthStart 0 m \<le> 334"
  by (simp add: MonthStart_def)

lemma DayFromYear_date_range:
  assumes "- 271820 \<le> Y" "Y \<le> 275759"
  shows "- 99999744 \<le> DayFromYear Y" "DayFromYear Y \<le> 99999379"
proof -
  have "DayFromYear (- 271820) = - 99999744" "DayFromYear 275759 = 99999379"
    by (simp_all add: DayFromYear_def)
  then show "- 99999744 \<le> DayFromYear Y" "DayFromYear Y \<le> 99999379"
    using DayFromYear_mono [OF assms(1)] DayFromYear_mono [OF assms(2)] by simp_all
qed

lemma MakeFullYear_range:
  "- 271820 \<le> year \<Longrightarrow> year \<le> 275759 \<Longrightarrow>
   - 271820 \<le> MakeFullYear year \<and> MakeFullYear year \<le> 275759"
  by (simp add: MakeFullYear_def)

lemma shifted_text_mid_range:
  assumes tza: "\<bar>tza\<bar> < msPerDay"
    and md: "2 \<le> m" "m \<le> 11" "1 \<le> d" "d \<le> 28"
    and yr: "- 271820 \<le> year" "year \<le> 275759"
    and off: "- 15 \<le> off" "off \<le> 15"
  shows "shifted_text tza year m d off y = civil_text (shift_days (MakeFullYear year, m, d) off) y"
proof -
  let ?Y = "MakeFullYear year"
  have Y: "- 271820 \<le> ?Y" "?Y \<le> 275759" using MakeFullYear_range [OF yr] by simp_all
  note b = festival_base [OF md, of ?Y]
  note r = DayFromYear_date_range [OF Y]
  note s = MonthStart_0_bounds [OF md(1)]
  have D: "- 99999744 \<le> day_of_civil (?Y, m, d)" "day_of_civil (?Y, m, d) \<le> 99999379 + 334 + 1 + 27"
    using r s md(3,4) unfolding b(2) by (simp_all split: if_splits)
  show ?thesis
    using tza b(1)
  proof (rule shifted_text_valid)
    show "\<bar>day_of_civil (?Y, m, d)\<bar> < 100000000" using D by (simp add: abs_less_iff)
    show "\<bar>day_of_civil (?Y, m, d) + off\<bar> < 100000000" using D off by (simp add: abs_less_iff)
  qed
qed

lemma diwali_any_year:
  assumes "- 15 \<le> off" "off \<le> 15"
  shows "civil_text (shift_days (MakeFullYear year, 9, 15) off) y =
         civil_text (shift_days (year, 9, 15) off) y"
  using assms
  by (intro civil_text_shift_after_feb_any_year)
     (simp_all add: valid_civil_def days_in_month_def MonthStart_def)

lemma navratri_any_year:
  assumes "- 10 \<le> off" "off \<le> 10"
  shows "civil_text (shift_days (MakeFullYear year, 8, 20) off) y =
         civil_text (shift_days (year, 8, 20) off) y"
  using assms
  by (intro civil_text_shift_after_feb_any_year)
     (simp_all add: valid_civil_def days_in_month_def MonthStart_def)

lemma holi_any_year:
  shows "civil_text (shift_days (MakeFullYear year, 2, 8) (calculateHoli_offset year)) y =
         civil_text (shift_days (year, 2, 8) (calculateHoli_offset year)) y"
proof -
  let ?off = "calculateHoli_offset year"
  note ob = offset_bounds(3,4) [of year]
  consider "MakeFullYear year = year" | "year = 0" | "1 \<le> year" "year \<le> 99"
    using MakeFullYear_cases [of year] by fastforce
  then show ?thesis
  proof cases
    case 1
    then show ?thesis by simp
  next
    case 2
    then have "?off = 12" by (simp add: offsets_at_0)
    then show ?thesis
      by (intro civil_text_shift_after_feb_any_year)
         (simp_all add: valid_civil_def days_in_month_def MonthStart_def)
  next
    case 3
    then have Y: "MakeFullYear year = 1900 + year" by (simp add: MakeFullYear_def)
    define l :: int where "l = (if DaysInYear year = 366 then 1 else 0)"
    have l: "0 \<le> l" "l \<le> 1" by (simp_all add: l_def)
    show ?thesis
      unfolding Y
    proof (rule civil_text_shift_same_leap [where l = l])
      show "valid_civil (year, 2, 8)" by (simp add: valid_civil_def days_in_month_def)
      show "DaysInYear (1900 + year) = DaysInYear year" using 3 by (rule DaysInYear_two_digit)
      show "l = (if DaysInYear year = 366 then 1 else 0)" by (rule l_def)
      show "MonthStart l 2 + 8 - 1 + ?off = MonthStart l 2 + 8 - 1 + ?off" by (rule refl)
      show "0 \<le> MonthStart l 2 + 8 - 1 + ?off" using ob l by (simp add: MonthStart_def)
      show "MonthStart l 2 + 8 - 1 + ?off < DaysInYear year"
        using ob l DaysInYear_cases [of year] by (auto simp add: MonthStart_def)
    qed
  qed
qed

lemma calculateDiwali_text:
  assumes "\<bar>tza\<bar> < msPerDay" "- 271820 \<le> year" "year \<le> 275759"
  shows "calculateDiwali tza year =
           civil_text (shift_days (year, 9, 15) (calculateDiwali_offset year)) year"
proof -
  note ob = offset_bounds(1,2) [of year]
  have "calculateDiwali tza year =
          civil_text (shift_days (MakeFullYear year, 9, 15) (calculateDiwali_offset year)) year"
    unfolding calculateDiwali_shifted
    using assms ob by (intro shifted_text_mid_range) simp_all
  then show ?thesis using diwali_any_year [OF ob] by simp
qed

lemma calculateHoli_text:
  assumes "\<bar>tza\<bar> < msPerDay" "- 271820 \<le> year" "year \<le> 275759"
  shows "calculateHoli tza year =
           civil_text (shift_days (year, 2, 8) (calculateHoli_offset year)) year"
proof -
  note ob = offset_bounds(3,4) [of year]
  have "calculateHoli tza year =
          civil_text (shift_days (MakeFullYear year, 2, 8) (calculateHoli_offset year)) year"
    unfolding calculateHoli_shifted
    using assms ob by (intro shifted_text_mid_range) simp_all
  then show ?thesis using holi_any_year [of year] by simp
qed

lemma calculateNavratri_text:
  assumes "\<bar>tza\<bar> < msPerDay" "- 271820 \<le> year" "year \<le> 275759"
  shows "calculateNavratri tza year =
           civil_text (shift_days (year, 8, 20) (calculateNavratri_offset year)) year"
proof -
  note ob = offset_bounds(5,6) [of year]
  have "calculateNavratri tza year =
          civil_text (shift_days (MakeFullYear year, 8, 20) (calculateNavratri_offset year)) year"
    unfolding calculateNavratri_shifted
    using assms ob by (intro shifted_text_mid_range) simp_all
  then show ?thesis using navratri_any_year [OF ob] by simp
qed

lemma shift_eval:
  "civil_text (shift_days (0, 9, 15) 0) 0 = ''October 15, 0''"
  "civil_text (shift_days (0, 2, 8) 12) 0 = ''March 20, 0''"
  "civil_text (shift_days (0, 8, 20) 8) 0 = ''September 28, 0''"
  "civil_text (shift_days (2024, 9, 15) 10) 2024 = ''October 25, 2024''"
  "civil_text (shift_days (2024, 2, 8) 8) 2024 = ''March 16, 2024''"
  "civil_text (shift_days (2024, 8, 20) 9) 2024 = ''September 29, 2024''"
  "civil_text (shift_days (2024, 8, 20) 7) 2024 = ''September 27, 2024''"
  by code_simp+

lemma shifted_text_zone_indep:
  assumes tza: "\<bar>tza\<bar> < msPerDay" "\<bar>tza'\<bar> < msPerDay"
    and v: "valid_civil (MakeFullYear y, m, d)"
    and gap: "\<bar>day_of_civil (MakeFullYear y, m, d)\<bar> < 99999985 \<or>
              100000000 < \<bar>day_of_civil (MakeFullYear y, m, d)\<bar>"
    and off: "- 15 \<le> off" "off \<le> 15"
  shows "shifted_text tza y m d off yr = shifted_text tza' y m d off yr"
  using gap
proof
  assume a: "\<bar>day_of_civil (MakeFullYear y, m, d)\<bar> < 99999985"
  then have r0: "\<bar>day_of_civil (MakeFullYear y, m, d)\<bar> < 100000000" by simp
  have r1: "\<bar>day_of_civil (MakeFullYear y, m, d) + off\<bar> < 100000000"
    using a off by (simp add: abs_less_iff)
  show ?thesis
    using shifted_text_valid [OF tza(1) v r0 r1, of yr] shifted_text_valid [OF tza(2) v r0 r1, of yr]
    by simp
next
  assume "100000000 < \<bar>day_of_civil (MakeFullYear y, m, d)\<bar>"
  then have r0: "100000000 < \<bar>MakeDay (MakeFullYear y) m d\<bar>" by (simp add: day_of_civil_def)
  show ?thesis
    using shifted_text_invalid_base [OF tza(1) r0, of off yr]
      shifted_text_invalid_base [OF tza(2) r0, of off yr]
    by simp
qed

text \<open>
  No festival base date lies within fifteen days of the first or last day a \<open>Date\<close> can
  hold, so whether the estimate is a valid date does not depend on the host's time zone.
\<close>

lemma festival_day_gap:
  assumes md: "(m, d) = (9, 15) \<or> (m, d) = (2, 8) \<or> (m, d) = (8, 20)"
  shows "\<bar>day_of_civil (MakeFullYear year, m, d)\<bar> < 99999985 \<or>
         100000000 < \<bar>day_of_civil (MakeFullYear year, m, d)\<bar>"
proof -
  have md': "2 \<le> m" "m \<le> 11" "1 \<le> d" "d \<le> 28" using md by auto
  let ?Y = "MakeFullYear year"
  note b = festival_base [OF md', of ?Y]
  note s = MonthStart_0_bounds [OF md'(1)]
  consider "year \<le> - 271822" | "year = - 271821" | "- 271820 \<le> year" "year \<le> 275759"
    | "year = 275760" | "275761 \<le> year"
    by linarith
  then show ?thesis
  proof cases
    case 1
    then have Y: "?Y = year" by (simp add: MakeFullYear_def)
    have "DayFromYear (- 271822) = - 100000474" by (simp add: DayFromYear_def)
    then have "DayFromYear year \<le> - 100000474" using DayFromYear_mono [OF 1] by simp
    then have "day_of_civil (?Y, m, d) < - 100000000"
      using s md'(3,4) unfolding b(2) by (simp add: Y split: if_splits)
    then show ?thesis by simp
  next
    case 2
    then have Y: "?Y = - 271821" by (simp add: MakeFullYear_def)
    from md show ?thesis
      unfolding Y by (elim disjE) (simp_all add: civil_eval)
  next
    case 3
    then have Y: "- 271820 \<le> ?Y" "?Y \<le> 275759" using MakeFullYear_range by simp_all
    note r = DayFromYear_date_range [OF Y]
    have "- 99999744 \<le> day_of_civil (?Y, m, d)" "day_of_civil (?Y, m, d) \<le> 99999379 + 334 + 1 + 27"
      using r s md'(3,4) unfolding b(2) by (simp_all split: if_splits)
    then show ?thesis by (simp add: abs_less_iff)
  next
    case 4
    then have Y: "?Y = 275760" by (simp add: MakeFullYear_def)
    from md show ?thesis
      unfolding Y by (elim disjE) (simp_all add: civil_eval)
  next
    case 5
    then have Y: "?Y = year" by (simp add: MakeFullYear_def)
    have "DayFromYear 275761 = 100000110" by (simp add: DayFromYear_def)
    then have "100000110 \<le> DayFromYear year" using DayFromYear_mono [OF 5] by simp
    then have "100000000 < day_of_civil (?Y, m, d)"
      using s md'(3,4) unfolding b(2) by (simp add: Y split: if_splits)
    then show ?thesis by simp
  qed
qed

lemma festival_zone_indep:
  assumes tza: "\<bar>tza\<bar> < msPerDay" "\<bar>tza'\<bar> < msPerDay"
    and md: "(m, d) = (9, 15) \<or> (m, d) = (2, 8) \<or> (m, d) = (8, 20)"
    and off: "- 15 \<le> off" "off \<le> 15"
  shows "shifted_text tza year m d off yr = shifted_text tza' year m d off yr"
proof -
  have md': "2 \<le> m" "m \<le> 11" "1 \<le> d" "d \<le> 28" using md by auto
  show ?thesis
    using tza festival_base(1) [OF md'] festival_day_gap [OF md] off
    by (rule shifted_text_zone_indep)
qed

subsection \<open>The Islamic month index\<close>

lemma islamic_bucket:
  assumes "1 \<le> n" "n \<le> 366"
  shows "0 \<le> js_rem \<lfloor>real_of_int (js_rem n 354) / 29.5\<rfloor> 12 \<and>
         js_rem \<lfloor>real_of_int (js_rem n 354) / 29.5\<rfloor> 12 \<le> 11"
proof -
  define r where "r = js_rem n 354"
  have r: "0 \<le> r" "r \<le> 353"
    using assms pos_mod_bound [of 354 n] by (simp_all add: r_def js_rem_nonneg)
  define q where "q = \<lfloor>real_of_int r / 29.5\<rfloor>"
  have "0 \<le> real_of_int r / 29.5" using r(1) by simp
  then have q0: "0 \<le> q" by (simp add: q_def)
  have "real_of_int r / 29.5 < 12" using r(2) by simp
  then have "q < 12" unfolding q_def by (simp add: floor_less_iff)
  then have "js_rem q 12 = q" using q0 by (simp add: js_rem_nonneg)
  then show ?thesis using q0 \<open>q < 12\<close> unfolding q_def r_def by simp
qed

text \<open>
  For a date whose year is not from 0 to 99 (and whose preceding 31 December a \<open>Date\<close> can
  hold), the day of the year is 1..366 and the month index of \<open>gregorianToIslamic\<close> lies
  in 0..11.
\<close>

lemma gregorianToIslamic_monthIndex_in_range:
  assumes tza: "\<bar>tza\<bar> < msPerDay"
    and y: "getFullYear tza (Some tv) = Some y" "y < 0 \<or> 99 < y"
    and r: "\<bar>DayFromYear y - 1\<bar> < 100000000"
  shows "\<exists>n i. gregorianToIslamic_dayOfYear tza (Some tv) = Some n \<and> 1 \<le> n \<and> n \<le> 366 \<and>
           gregorianToIslamic_monthIndex tza (Some tv) = Some i \<and> 0 \<le> i \<and> i \<le> 11"
proof -
  define lt where "lt = tv + tza"
  have yy: "y = YearFromDay (Day lt)"
    using y(1) by (simp add: getFullYear_def LocalTime_def YearFromTime_def lt_def)
  have c: "DayFromYear y \<le> Day lt" "Day lt < DayFromYear (y + 1)"
    using YearFromDay_correct [of "Day lt"] by (simp_all add: yy)
  have fy: "MakeFullYear y = y" using y(2) by (auto simp add: MakeFullYear_def)
  have md: "MakeDay y 0 0 = DayFromYear y - 1" by (simp add: MakeDay_def MonthStart_def)
  have nd: "new_Date tza (Some y) 0 0 = Some (MakeDate (DayFromYear y - 1) 0 - tza)"
    using TimeClip_in_range [OF tza r] by (simp add: new_Date_def fy md)
  have "tv - (MakeDate (DayFromYear y - 1) 0 - tza) = lt + (- (DayFromYear y - 1)) * msPerDay"
    by (simp add: lt_def MakeDate_def algebra_simps)
  then have "(tv - (MakeDate (DayFromYear y - 1) 0 - tza)) div msPerDay =
               - (DayFromYear y - 1) + lt div msPerDay"
    using msPerDay_pos by simp
  then have doy: "gregorianToIslamic_dayOfYear tza (Some tv) = Some (Day lt - DayFromYear y + 1)"
    by (simp add: gregorianToIslamic_dayOfYear_def y(1) nd num_sub_def floor_div_def Day_def
        msPerDay_def)
  define n where "n = Day lt - DayFromYear y + 1"
  have n: "1 \<le> n" "n \<le> 366"
    using c DaysInYear_cases [of y] by (auto simp add: n_def DayFromYear_Suc)
  have mi: "gregorianToIslamic_monthIndex tza (Some tv) =
              Some (js_rem \<lfloor>real_of_int (js_rem n 354) / 29.5\<rfloor> 12)"
    by (simp add: gregorianToIslamic_monthIndex_def doy num_rem_def n_def)
  show ?thesis
    using doy n mi islamic_bucket [OF n] by (simp add: n_def)
qed

section \<open>Claims about the Gregorian utilities\<close>

text \<open>
  C1. For the reference years the Easter computation returns the canonical dates:
  \<open>calculateEasterDate(2024)\<close> is \<open>March 31, 2024\<close>, \<open>calculateEasterDate(2025)\<close> is
  \<open>April 20, 2025\<close> and \<open>calculateEasterDate(2023)\<close> is \<open>April 9, 2023\<close>.
\<close>

theorem calculateEasterDate_reference:
  "calculateEasterDate 2024 = ''March 31, 2024'' \<and>
   calculateEasterDate 2025 = ''April 20, 2025'' \<and>
   calculateEasterDate 2023 = ''April 9, 2023''"
  by code_simp

text \<open>
  C6. For every integer year, \<open>isGregorianLeapYear\<close> holds exactly when the year is
  divisible by 400, or divisible by 4 and not by 100; so 2000 and 2024 are leap years and
  1900 and 2023 are not.
\<close>

theorem isGregorianLeapYear_iff:
  "(isGregorianLeapYear year \<longleftrightarrow> 400 dvd year \<or> (4 dvd year \<and> \<not> 100 dvd year)) \<and>
   isGregorianLeapYear 2000 \<and> \<not> isGregorianLeapYear 1900 \<and>
   isGregorianLeapYear 2024 \<and> \<not> isGregorianLeapYear 2023"
  by (simp add: isGregorianLeapYear_def js_rem_eq_0_iff)

text \<open>
  C10. For every non-negative year the month computed by \<open>calculateEasterDate\<close> is 3 or 4
  and the day lies in 1..31, so the lookup \<open>monthNames[month - 1]\<close> is in bounds and the
  returned string names March or April.
\<close>

theorem calculateEasterDate_month_day_range:
  assumes "0 \<le> year"
  shows "(fst (easter_month_day year) = 3 \<or> fst (easter_month_day year) = 4) \<and>
         1 \<le> snd (easter_month_day year) \<and> snd (easter_month_day year) \<le> 31 \<and>
         js_index monthNames (Some (fst (easter_month_day year) - 1)) \<in> {Some ''March'', Some ''April''} \<and>
         calculateEasterDate year \<in>
           {''March '' @ show_int (snd (easter_month_day year)) @ '', '' @ show_int year,
            ''April '' @ show_int (snd (easter_month_day year)) @ '', '' @ show_int year}"
proof -
  obtain month day where emd: "easter_month_day year = (month, day)"
    by (cases "easter_month_day year")
  have rng: "month = 3 \<or> month = 4" "1 \<le> day" "day \<le> 31"
    using easter_range [OF assms] by (simp_all add: emd)
  from rng(1) show ?thesis
  proof
    assume "month = 3"
    then show ?thesis
      using rng by (simp add: emd calculateEasterDate_def js_index_def monthNames_def show_str_def)
  next
    assume "month = 4"
    then show ?thesis
      using rng by (simp add: emd calculateEasterDate_def js_index_def monthNames_def show_str_def)
  qed
qed

theorem calculateEasterDate_month_day_range_witness:
  "(0::int) \<le> 2024 \<and> easter_month_day 2024 = (3, 31) \<and>
   js_index monthNames (Some (fst (easter_month_day 2024) - 1)) = Some ''March'' \<and>
   calculateEasterDate 2024 = ''March 31, 2024''"
proof -
  have emd: "easter_month_day 2024 = (3, 31)" by code_simp
  have "calculateEasterDate 2024 \<in>
           {''March '' @ show_int (snd (easter_month_day 2024)) @ '', '' @ show_int 2024,
            ''April '' @ show_int (snd (easter_month_day 2024)) @ '', '' @ show_int 2024}"
    using calculateEasterDate_month_day_range [of 2024] by simp
  moreover have "show_int 31 = ''31''" "show_int 2024 = ''2024''" by code_simp+
  moreover have "calculateEasterDate 2024 \<noteq> ''April 31, 2024''" by code_simp
  ultimately show ?thesis
    by (simp add: emd js_index_def monthNames_def)
qed

section \<open>Claims about the Hebrew calendar\<close>

lemma isHebrewLeapYear_nonneg:
  "0 \<le> year \<Longrightarrow> isHebrewLeapYear year \<longleftrightarrow> year mod 19 \<in> {3, 6, 8, 11, 14, 17, 0}"
  by (simp add: isHebrewLeapYear_def js_rem_nonneg Let_def)

lemma isHebrewLeapYear_neg:
  "year < 0 \<Longrightarrow> isHebrewLeapYear year \<longleftrightarrow> 19 dvd year"
proof -
  assume neg: "year < 0"
  have "0 \<le> (- year) mod 19" by simp
  then have "isHebrewLeapYear year \<longleftrightarrow> (- year) mod 19 = 0"
    using neg by (auto simp add: isHebrewLeapYear_def js_rem_neg Let_def)
  then show ?thesis by (simp add: mod_eq_0_iff_dvd)
qed

text \<open>
  C3 as stated claims that \<open>isHebrewLeapYear(year)\<close> equals \<open>isHebrewLeapYear(year + 19)\<close>
  for every integer year, negative years included. The remainder \<open>%\<close> of a negative year
  is negative, so year -16 is not a leap year while year 3 is.
\<close>

theorem isHebrewLeapYear_period_counterexample:
  "isHebrewLeapYear (- 16) \<noteq> isHebrewLeapYear (- 16 + 19)"
  by (simp add: isHebrewLeapYear_def js_rem_def)

text \<open>
  C3, amended. For every year that is non-negative, or at most -19 (so that \<open>year\<close> and
  \<open>year + 19\<close> do not lie on different sides of zero), \<open>isHebrewLeapYear(year)\<close> equals
  \<open>isHebrewLeapYear(year + 19)\<close>.
\<close>

theorem isHebrewLeapYear_period:
  assumes "0 \<le> year \<or> year \<le> - 19"
  shows "isHebrewLeapYear year = isHebrewLeapYear (year + 19)"
proof (cases "0 \<le> year")
  case True
  then show ?thesis by (simp add: isHebrewLeapYear_nonneg)
next
  case False
  with assms have le: "year \<le> - 19" by simp
  show ?thesis
  proof (cases "year = - 19")
    case True
    then show ?thesis by (simp add: isHebrewLeapYear_def js_rem_def)
  next
    case False
    with le have "year < 0" "year + 19 < 0" by simp_all
    then show ?thesis by (simp add: isHebrewLeapYear_neg)
  qed
qed

theorem isHebrewLeapYear_period_witness:
  "((0::int) \<le> 5784 \<or> (5784::int) \<le> - 19) \<and>
   isHebrewLeapYear 5784 = isHebrewLeapYear (5784 + 19) \<and> isHebrewLeapYear 5784 \<and>
   isHebrewLeapYear (- 38) = isHebrewLeapYear (- 38 + 19)"
proof -
  have "isHebrewLeapYear 5784 = isHebrewLeapYear (5784 + 19)"
    using isHebrewLeapYear_period [of 5784] by simp
  moreover have "isHebrewLeapYear (- 38) = isHebrewLeapYear (- 38 + 19)"
    using isHebrewLeapYear_period [of "- 38"] by simp
  moreover have "isHebrewLeapYear 5784" by (simp add: isHebrewLeapYear_def js_rem_def)
  ultimately show ?thesis by simp
qed

section \<open>Claims about the Islamic calendar\<close>

text \<open>
  C5 is stated for every integer year. A \<open>Date\<close> cannot hold a day more than 100,000,000
  days from the epoch: for the year 10,000,000 the shifted date is invalid and the function
  returns the text \<open>undefined NaN, 10000000\<close>, which is not the month and day of the
  shifted calendar date.
\<close>

theorem calculateRamadanStart_counterexample:
  "calculateRamadanStart 0 10000000 = ''undefined NaN, 10000000'' \<and>
   calculateRamadanStart 0 10000000 \<noteq>
     civil_text (shift_days (2024, 2, 10) (- (11 * (10000000 - 2024)))) 10000000"
proof -
  have s: "show_int 10000000 = ''10000000''"
    by (simp add: show_int_def show_nat.simps digit_char_def)
  have "calculateRamadanStart 0 10000000 = ''undefined NaN, '' @ show_int 10000000"
    by (rule calculateRamadanStart_out_of_range) (simp_all add: msPerDay_def)
  then have 1: "calculateRamadanStart 0 10000000 = ''undefined NaN, 10000000''"
    by (simp add: s)
  from s have 2: "civil_text (shift_days (2024, 2, 10) (- (11 * (10000000 - 2024)))) 10000000 \<noteq>
      ''undefined NaN, 10000000''"
    using civil_text_not_undefined [of "shift_days (2024, 2, 10) (- (11 * (10000000 - 2024)))" 10000000]
      shift_days_valid [of "(2024, 2, 10)" "- (11 * (10000000 - 2024))"] ramadan_anchor(2)
    by simp
  from 1 2 show ?thesis by simp
qed

text \<open>
  C5, amended. For every host time zone offset of less than a day and every year from
  -9087085 to 9094732 (the years whose shifted date a \<open>Date\<close> can hold),
  \<open>calculateRamadanStart\<close> returns the month name and day of month of the calendar date
  obtained by shifting 10 March 2024 backward by exactly \<open>11 * (gregorianYear - 2024)\<close> days,
  followed by \<open>gregorianYear\<close> itself.
\<close>

theorem calculateRamadanStart_shift:
  assumes "\<bar>tza\<bar> < msPerDay" "- 9087085 \<le> gregorianYear" "gregorianYear \<le> 9094732"
  shows "calculateRamadanStart tza gregorianYear =
           civil_text (shift_days (2024, 2, 10) (- (11 * (gregorianYear - 2024)))) gregorianYear"
proof -
  let ?off = "- (11 * (gregorianYear - 2024))"
  have v: "valid_civil (MakeFullYear 2024, 2, 10)" by (simp add: ramadan_anchor)
  have r0: "\<bar>day_of_civil (MakeFullYear 2024, 2, 10)\<bar> < 100000000" by (simp add: ramadan_anchor)
  have r1: "\<bar>day_of_civil (MakeFullYear 2024, 2, 10) + ?off\<bar> < 100000000"
    using assms(2,3) unfolding ramadan_anchor by (simp add: abs_less_iff)
  have "shifted_text tza 2024 2 10 ?off gregorianYear =
          civil_text (shift_days (MakeFullYear 2024, 2, 10) ?off) gregorianYear"
    using assms(1) v r0 r1 by (rule shifted_text_valid)
  then show ?thesis
    by (simp only: calculateRamadanStart_shifted' ramadan_anchor)
qed

theorem calculateRamadanStart_shift_witness:
  "\<bar>3600000\<bar> < msPerDay \<and> (- 9087085 :: int) \<le> 2025 \<and> (2025 :: int) \<le> 9094732 \<and>
   calculateRamadanStart 3600000 2025 = ''February 28, 2025'' \<and>
   calculateRamadanStart 3600000 2023 = ''March 21, 2023''"
proof -
  have t: "\<bar>3600000\<bar> < msPerDay" by (simp add: msPerDay_def)
  have "civil_text (shift_days (2024, 2, 10) (- (11 * (2025 - 2024)))) 2025 = ''February 28, 2025''"
    by code_simp
  moreover have "civil_text (shift_days (2024, 2, 10) (- (11 * (2023 - 2024)))) 2023 = ''March 21, 2023''"
    by code_simp
  ultimately show ?thesis
    using t calculateRamadanStart_shift [OF t, of 2025] calculateRamadanStart_shift [OF t, of 2023]
    by simp
qed

section \<open>Claims about the date conversions\<close>

text \<open>
  C4. For every date with Gregorian year \<open>y\<close>, 0-indexed month \<open>m\<close> in 0..11 and day \<open>d\<close> in
  1..31, \<open>gregorianToHebrew\<close> returns the day unchanged, then entry \<open>(m + 6) mod 12\<close> of the
  twelve Hebrew month names, then the year \<open>y + 3760\<close>, plus one if \<open>m \<ge> 9\<close>, separated by
  single spaces.
\<close>

theorem gregorianToHebrew_text:
  assumes "getFullYear tza date = Some y" "getMonth tza date = Some m" "getDate tza date = Some d"
    and "0 \<le> m" "m \<le> 11" "1 \<le> d" "d \<le> 31"
  shows "gregorianToHebrew tza date =
           show_int d @ '' '' @ hebrewMonths ! nat ((m + 6) mod 12) @ '' '' @
           show_int (y + 3760 + (if 9 \<le> m then 1 else 0))"
  using assms(1-3) hebrew_index [OF assms(4,5)]
  by (simp add: gregorianToHebrew_def gregorianToHebrew_monthIndex_def Let_def num_add_def
      num_ge_def num_rem_def show_num_def show_str_def)

theorem gregorianToHebrew_text_witness:
  "getFullYear 0 (Some 1727913600000) = Some 2024 \<and> getMonth 0 (Some 1727913600000) = Some 9 \<and>
   getDate 0 (Some 1727913600000) = Some 3 \<and> (0::int) \<le> 9 \<and> (9::int) \<le> 11 \<and>
   (1::int) \<le> 3 \<and> (3::int) \<le> 31 \<and>
   gregorianToHebrew 0 (Some 1727913600000) = ''3 Tammuz 5785''"
proof -
  have "civil_of_day (Day (1727913600000 + 0)) = (2024, 9, 3)"
    by (simp add: Day_def msPerDay_def civil_of_day_19999)
  note g = getters_Some [OF this]
  have "gregorianToHebrew 0 (Some 1727913600000) =
           show_int 3 @ '' '' @ hebrewMonths ! nat ((9 + 6) mod 12) @ '' '' @
           show_int (2024 + 3760 + (if (9::int) \<le> 9 then 1 else 0))"
    using g by (intro gregorianToHebrew_text) simp_all
  then have "gregorianToHebrew 0 (Some 1727913600000) = ''3 Tammuz 5785''"
    by (simp add: hebrewMonths_def text_eval)
  with g show ?thesis by simp
qed

text \<open>
  C7. For every valid date \<open>getSeason\<close> returns one of the four strings Spring, Summer, Fall
  and Winter, determined by the 0-indexed month alone: Spring for months 2 to 4, Summer for
  5 to 7, Fall for 8 to 10 and Winter otherwise. (The result is a function of the date, so
  repeated calls with the same date agree.)
\<close>

theorem getSeason_by_month:
  "\<exists>m. getMonth tza (Some t) = Some m \<and> 0 \<le> m \<and> m \<le> 11 \<and>
      getSeason tza (Some t) =
        (if 2 \<le> m \<and> m \<le> 4 then ''Spring''
         else if 5 \<le> m \<and> m \<le> 7 then ''Summer''
         else if 8 \<le> m \<and> m \<le> 10 then ''Fall''
         else ''Winter'') \<and>
      getSeason tza (Some t) \<in> {''Spring'', ''Summer'', ''Fall'', ''Winter''}"
proof -
  define m where "m = MonthFromTime (LocalTime tza t)"
  have gm: "getMonth tza (Some t) = Some m" by (simp add: getMonth_def m_def)
  have rng: "0 \<le> m" "m \<le> 11" by (simp_all add: m_def MonthFromTime_def MonthFromDay_def)
  have gs: "getSeason tza (Some t) =
        (if 2 \<le> m \<and> m \<le> 4 then ''Spring''
         else if 5 \<le> m \<and> m \<le> 7 then ''Summer''
         else if 8 \<le> m \<and> m \<le> 10 then ''Fall''
         else ''Winter'')"
    by (simp add: getSeason_def gm num_ge_def num_le_def Let_def)
  have "getSeason tza (Some t) \<in> {''Spring'', ''Summer'', ''Fall'', ''Winter''}"
    unfolding gs by simp
  with gm rng gs show ?thesis by blast
qed

text \<open>
  C8 asks that the month index of \<open>gregorianToHebrew\<close>, \<open>gregorianToHindu\<close> and
  \<open>gregorianToIslamic\<close> stays within 0..11 for every valid date. For the first two this is
  lemma \<open>hebrew_hindu_monthIndex_in_range\<close>, and for \<open>gregorianToIslamic\<close> and a year outside
  0..99 it is lemma \<open>gregorianToIslamic_monthIndex_in_range\<close>. But \<open>gregorianToIslamic\<close> counts
  the day of the year from \<open>new Date(year, 0, 0)\<close>, which for a year from 0 to 99 is a day
  of the twentieth century: for 15 June of the year 50 the day of the year is -693794, the
  month index is -11, and the lookup in the twelve month names is out of range.
\<close>

theorem gregorianToIslamic_monthIndex_year_50:
  "getFullYear 0 (Some (- 60575040000000)) = Some 50 \<and>
   getMonth 0 (Some (- 60575040000000)) = Some 5 \<and>
   getDate 0 (Some (- 60575040000000)) = Some 15 \<and>
   new_Date 0 (Some 50) 0 0 = Some (- 631238400000) \<and>
   getFullYear 0 (new_Date 0 (Some 50) 0 0) = Some 1949 \<and>
   gregorianToIslamic_dayOfYear 0 (Some (- 60575040000000)) = Some (- 693794) \<and>
   gregorianToIslamic_monthIndex 0 (Some (- 60575040000000)) = Some (- 11) \<and>
   js_index islamicMonths (gregorianToIslamic_monthIndex 0 (Some (- 60575040000000))) = None"
proof -
  have "civil_of_day (Day (- 60575040000000 + 0)) = (50, 5, 15)"
    by (simp add: Day_def msPerDay_def civil_of_day_year_50)
  note g = getters_Some [OF this]
  have nd: "new_Date 0 (Some 50) 0 0 = Some (- 631238400000)"
    by (simp add: new_Date_def MakeFullYear_def MakeDay_def DayFromYear_def DaysInYear_def
        MonthStart_def MakeDate_def UTC_def TimeClip_def msPerDay_def)
  have "civil_of_day (- 7306) = (1949, 11, 31)"
    by (rule civil_of_day_eval) (simp_all add: civil_eval)
  then have "civil_of_day (Day (- 631238400000 + 0)) = (1949, 11, 31)"
    by (simp add: Day_def msPerDay_def)
  note g0 = getters_Some [OF this]
  have doy: "gregorianToIslamic_dayOfYear 0 (Some (- 60575040000000)) = Some (- 693794)"
    by (simp add: gregorianToIslamic_dayOfYear_def g(1) nd num_sub_def floor_div_def)
  have mi: "gregorianToIslamic_monthIndex 0 (Some (- 60575040000000)) = Some (- 11)"
    by (simp add: gregorianToIslamic_monthIndex_def doy num_rem_def js_rem_def)
  show ?thesis
    using g g0(1) by (simp add: nd doy mi js_index_def)
qed

section \<open>Claims about the festival estimators\<close>

text \<open>
  C2 as stated has every estimator shift its base date by the same kind of offset of the
  year: \<open>calculateNavratri\<close> by \<open>floor(sin(year) * 10)\<close>, and for every integer year. The code
  of \<open>calculateNavratri\<close> takes the sine of \<open>year + 1\<close>: for the year 2024 it returns
  \<open>September 29, 2024\<close> (an offset of \<open>floor(sin(2025) * 10) = 9\<close> days), where a shift of
  20 September by \<open>floor(sin(2024) * 10) = 7\<close> days gives \<open>September 27, 2024\<close>. And a \<open>Date\<close>
  cannot hold the base date of a year such as 300000: there the result is the text
  \<open>undefined NaN, 300000\<close>.
\<close>

theorem festival_estimators_counterexample:
  "calculateNavratri 0 2024 = ''September 29, 2024'' \<and>
   civil_text (shift_days (2024, 8, 20) \<lfloor>sin (real_of_int 2024) * 10\<rfloor>) 2024 =
     ''September 27, 2024'' \<and>
   calculateDiwali 0 300000 = ''undefined NaN, 300000''"
proof -
  have t: "\<bar>0\<bar> < msPerDay" by (simp add: msPerDay_def)
  have "calculateNavratri 0 2024 =
          civil_text (shift_days (2024, 8, 20) (calculateNavratri_offset 2024)) 2024"
    using t by (intro calculateNavratri_text) simp_all
  then have 1: "calculateNavratri 0 2024 = ''September 29, 2024''"
    by (simp only: offsets_at_2024 shift_eval)
  have 2: "civil_text (shift_days (2024, 8, 20) \<lfloor>sin (real_of_int 2024) * 10\<rfloor>) 2024 =
      ''September 27, 2024''"
    by (simp only: offsets_at_2024 shift_eval)
  have "calculateDiwali 0 300000 = ''undefined NaN, '' @ show_int 300000"
    unfolding calculateDiwali_shifted
    by (rule shifted_text_invalid_base)
       (simp_all add: msPerDay_def MakeFullYear_def MakeDay_def DayFromYear_def DaysInYear_def
          MonthStart_def)
  then have 3: "calculateDiwali 0 300000 = ''undefined NaN, 300000''"
    by (simp add: text_eval)
  from 1 2 3 show ?thesis by simp
qed

text \<open>
  C2, amended. For every host time zone offset of less than a day and every year from
  -271820 to 275759 (the years whose base dates a \<open>Date\<close> can hold), \<open>calculateDiwali\<close> shifts
  15 October of that year by \<open>floor(sin(year) * 15)\<close> days, \<open>calculateHoli\<close> shifts 8 March by
  \<open>floor(cos(year) * 12)\<close> days, and \<open>calculateNavratri\<close> shifts 20 September by
  \<open>floor(sin(year + 1) * 10)\<close> days; each returns the month name and day of the shifted
  date, followed by the year.
\<close>

theorem festival_estimators_shift:
  assumes "\<bar>tza\<bar> < msPerDay" "- 271820 \<le> year" "year \<le> 275759"
  shows "calculateDiwali tza year =
           civil_text (shift_days (year, 9, 15) \<lfloor>sin (real_of_int year) * 15\<rfloor>) year \<and>
         calculateHoli tza year =
           civil_text (shift_days (year, 2, 8) \<lfloor>cos (real_of_int year) * 12\<rfloor>) year \<and>
         calculateNavratri tza year =
           civil_text (shift_days (year, 8, 20) \<lfloor>sin (real_of_int (year + 1)) * 10\<rfloor>) year"
  using calculateDiwali_text [OF assms] calculateHoli_text [OF assms]
    calculateNavratri_text [OF assms]
  by (simp add: calculateDiwali_offset_def calculateHoli_offset_def calculateNavratri_offset_def)

theorem festival_estimators_shift_witness:
  "\<bar>- 18000000\<bar> < msPerDay \<and> (- 271820 :: int) \<le> 2024 \<and> (2024 :: int) \<le> 275759 \<and>
   calculateDiwali (- 18000000) 2024 = ''October 25, 2024'' \<and>
   calculateHoli (- 18000000) 2024 = ''March 16, 2024'' \<and>
   calculateNavratri (- 18000000) 2024 = ''September 29, 2024'' \<and>
   calculateDiwali 0 0 = ''October 15, 0'' \<and> calculateHoli 0 0 = ''March 20, 0'' \<and>
   calculateNavratri 0 0 = ''September 28, 0''"
proof -
  have t: "\<bar>- 18000000\<bar> < msPerDay" "\<bar>0\<bar> < msPerDay" by (simp_all add: msPerDay_def)
  have "calculateDiwali (- 18000000) 2024 =
           civil_text (shift_days (2024, 9, 15) (calculateDiwali_offset 2024)) 2024 \<and>
         calculateHoli (- 18000000) 2024 =
           civil_text (shift_days (2024, 2, 8) (calculateHoli_offset 2024)) 2024 \<and>
         calculateNavratri (- 18000000) 2024 =
           civil_text (shift_days (2024, 8, 20) (calculateNavratri_offset 2024)) 2024"
    using festival_estimators_shift [OF t(1), of 2024]
    by (simp add: calculateDiwali_offset_def calculateHoli_offset_def
        calculateNavratri_offset_def)
  then have a: "calculateDiwali (- 18000000) 2024 = ''October 25, 2024'' \<and>
      calculateHoli (- 18000000) 2024 = ''March 16, 2024'' \<and>
      calculateNavratri (- 18000000) 2024 = ''September 29, 2024''"
    by (simp only: offsets_at_2024 shift_eval)
  have "calculateDiwali 0 0 =
           civil_text (shift_days (0, 9, 15) \<lfloor>sin (real_of_int 0) * 15\<rfloor>) 0 \<and>
         calculateHoli 0 0 =
           civil_text (shift_days (0, 2, 8) \<lfloor>cos (real_of_int 0) * 12\<rfloor>) 0 \<and>
         calculateNavratri 0 0 =
           civil_text (shift_days (0, 8, 20) \<lfloor>sin (real_of_int (0 + 1)) * 10\<rfloor>) 0"
    using t(2) by (intro festival_estimators_shift) simp_all
  then have b: "calculateDiwali 0 0 = ''October 15, 0'' \<and> calculateHoli 0 0 = ''March 20, 0'' \<and>
      calculateNavratri 0 0 = ''September 28, 0''"
    by (simp add: floor_sin_one shift_eval)
  from a b t(1) show ?thesis by simp
qed

text \<open>
  C9. The festival estimators are deterministic: their result depends on the year alone.
  The functions read no clock and no mutable state (the embedding has no such argument);
  the only ambient input of their \<open>Date\<close> arithmetic is the host's time zone offset, and for
  every year two hosts with any offsets of less than a day obtain the same string from each
  of \<open>calculateDiwali\<close>, \<open>calculateHoli\<close> and \<open>calculateNavratri\<close>.
\<close>

theorem festival_estimators_deterministic:
  assumes "\<bar>tza\<bar> < msPerDay" "\<bar>tza'\<bar> < msPerDay"
  shows "calculateDiwali tza year = calculateDiwali tza' year \<and>
         calculateHoli tza year = calculateHoli tza' year \<and>
         calculateNavratri tza year = calculateNavratri tza' year"
proof -
  note ob = offset_bounds [of year]
  have "calculateDiwali tza year = calculateDiwali tza' year"
    unfolding calculateDiwali_shifted using assms ob(1,2)
    by (intro festival_zone_indep) simp_all
  moreover have "calculateHoli tza year = calculateHoli tza' year"
    unfolding calculateHoli_shifted using assms ob(3,4)
    by (intro festival_zone_indep) simp_all
  moreover have "calculateNavratri tza year = calculateNavratri tza' year"
    unfolding calculateNavratri_shifted using assms ob(5,6)
    by (intro festival_zone_indep) simp_all
  ultimately show ?thesis by simp
qed

theorem festival_estimators_deterministic_witness:
  "\<bar>- 18000000\<bar> < msPerDay \<and> \<bar>19800000\<bar> < msPerDay \<and>
   calculateDiwali (- 18000000) 2024 = calculateDiwali 19800000 2024 \<and>
   calculateHoli (- 18000000) 2024 = calculateHoli 19800000 2024 \<and>
   calculateNavratri (- 18000000) 2024 = calculateNavratri 19800000 2024 \<and>
   calculateDiwali (- 18000000) 275760 = calculateDiwali 19800000 275760"
proof -
  have t: "\<bar>- 18000000\<bar> < msPerDay" "\<bar>19800000\<bar> < msPerDay" by (simp_all add: msPerDay_def)
  show ?thesis
    using t festival_estimators_deterministic [OF t, of 2024]
      festival_estimators_deterministic [OF t, of 275760]
    by simp
qed

end
